theory Spec2Isabelle
  imports Complex_Main "HOL-Library.AList" "HOL-Library.Sublist"
begin

section \<open>The DynamoDB table provider (lib/aws/provider/dynamodb/table.go)\<close>

text \<open>
  A shallow embedding of the table provider: \<open>Check\<close>, \<open>Create\<close>, \<open>Get\<close>,
  \<open>getHashRangeKeys\<close>, \<open>Update\<close>, \<open>Delete\<close>, \<open>updateTable\<close>, \<open>waitForTableState\<close>
  and the index hash set built by \<open>newGlobalSecondaryIndexHashSet\<close>.

  Conventions of the embedding.
  \<^item> A Go pointer that the source tests against \<open>nil\<close>, stores or hands on is an
    \<open>option\<close>; a pointer of an SDK response that the source dereferences without a test
    is the value itself.
  \<^item> A \<open>float64\<close> capacity is modelled by its exact rational value (\<open>rat\<close>); NaN and
    the infinities are not modelled. The conversions \<open>int(x)\<close> and \<open>int64(x)\<close> truncate
    towards zero; their result is an unbounded \<open>int\<close>.
  \<^item> A Go \<open>(value, error)\<close> pair is a pair whose second component is an
    \<open>error option\<close>; a panic (\<open>contract.Failf\<close>, a failed \<open>contract.Assert\<close>, a nil
    dereference) is the error value \<open>Panic\<close>.
  \<^item> Every operation that talks to the remote service takes the state of the remote
    world and returns, besides its result, the list of remote calls it issued, each with
    the response it got, and the new state of the world. Output written with
    \<open>fmt.Printf\<close> is not modelled.
\<close>

subsection \<open>Errors\<close>

datatype error =
    AWSError string string    \<comment> \<open>an \<open>awserr.Error\<close>: its code and its message\<close>
  | Errorf string             \<comment> \<open>\<open>fmt.Errorf\<close>, or any other plain error\<close>
  | Panic string              \<comment> \<open>the call panicked\<close>

text \<open>
  Modelled from the spec: \<open>awsctx.IsAWSError\<close> is not among the sources. The spec has the
  core "classify the error code" of a remote error; the model holds for an AWS error
  whose code is one of the given codes.
\<close>

definition IsAWSError :: "error \<Rightarrow> string list \<Rightarrow> bool" where
  "IsAWSError err codes =
     (case err of AWSError code msg \<Rightarrow> code \<in> set codes | Errorf msg \<Rightarrow> False | Panic msg \<Rightarrow> False)"

definition ErrCodeResourceNotFoundException :: string where
  "ErrCodeResourceNotFoundException = ''ResourceNotFoundException''"

definition ErrCodeResourceInUseException :: string where
  "ErrCodeResourceInUseException = ''ResourceInUseException''"

subsection \<open>The desired state (package lib/aws/rpc/dynamodb)\<close>

text \<open>
  The declarations of \<open>Attribute\<close>, \<open>GlobalSecondaryIndex\<close> and \<open>Table\<close> are not among the
  sources: the records have the fields that table.go reads and writes, with the types it
  uses them at.
\<close>

record Attribute =
  attr_Name :: string
  attr_Type :: string

record GlobalSecondaryIndex =
  gsi_IndexName :: string
  gsi_HashKey :: string
  gsi_ReadCapacity :: rat
  gsi_WriteCapacity :: rat
  gsi_RangeKey :: "string option"
  gsi_NonKeyAttributes :: "string list"
  gsi_ProjectionType :: string

record Table =
  tab_Name :: "string option"
  tab_HashKey :: string
  tab_Attributes :: "Attribute list"
  tab_ReadCapacity :: rat
  tab_WriteCapacity :: rat
  tab_RangeKey :: "string option"
  tab_TableName :: "string option"
  tab_GlobalSecondaryIndexes :: "GlobalSecondaryIndex list option"

text \<open>
  The property names of the generated package are not among the sources either. They are
  keys of the diff and labels of field errors; the values below are the names of the
  properties.
\<close>

definition Table_Name :: string where "Table_Name = ''name''"
definition Table_ReadCapacity :: string where "Table_ReadCapacity = ''readCapacity''"
definition Table_WriteCapacity :: string where "Table_WriteCapacity = ''writeCapacity''"
definition Table_GlobalSecondaryIndexes :: string where
  "Table_GlobalSecondaryIndexes = ''globalSecondaryIndexes''"
definition Attribute_Name :: string where "Attribute_Name = ''name''"
definition Attribute_Type :: string where "Attribute_Type = ''type''"
definition GlobalSecondaryIndex_IndexName :: string where
  "GlobalSecondaryIndex_IndexName = ''indexName''"
definition GlobalSecondaryIndex_ReadCapacity :: string where
  "GlobalSecondaryIndex_ReadCapacity = ''readCapacity''"
definition GlobalSecondaryIndex_WriteCapacity :: string where
  "GlobalSecondaryIndex_WriteCapacity = ''writeCapacity''"

text \<open>
  A \<open>resource.ObjectDiff\<close> is used through \<open>Changed\<close> only: it is modelled by the list of
  the property names it reports as changed.
\<close>

type_synonym ObjectDiff = "string list"

definition Changed :: "ObjectDiff \<Rightarrow> string \<Rightarrow> bool" where
  "Changed diff k = (k \<in> set diff)"

subsection \<open>Constants for the table limits\<close>

definition minTableName :: nat where "minTableName = 3"
definition maxTableName :: nat where "maxTableName = 255"
definition minTableAttributeName :: nat where "minTableAttributeName = 1"
definition maxTableAttributeName :: nat where "maxTableAttributeName = 255"
definition minReadCapacity :: nat where "minReadCapacity = 1"
definition minWriteCapacity :: nat where "minWriteCapacity = 1"
definition maxGlobalSecondaryIndexes :: nat where "maxGlobalSecondaryIndexes = 5"

definition hashKeyAttribute :: string where "hashKeyAttribute = ''HASH''"
definition rangeKeyAttribute :: string where "rangeKeyAttribute = ''RANGE''"

subsection \<open>Check\<close>

text \<open>
  A \<open>mapper.FieldError\<close>: the type it is about, the field, and the reason. The variable
  \<open>failures\<close> of the source is threaded through the model as it is through the code.
\<close>

datatype FieldError = NewFieldErr string string string

definition typeOfTable :: string where "typeOfTable = ''*dynamodb.Table''"
definition typeOfAttribute :: string where "typeOfAttribute = ''dynamodb.Attribute''"
definition typeOfGlobalSecondaryIndex :: string where
  "typeOfGlobalSecondaryIndex = ''dynamodb.GlobalSecondaryIndex''"

text \<open>The body of the loop over \<open>obj.Attributes\<close>.\<close>

definition Check_attribute :: "Attribute \<Rightarrow> FieldError list \<Rightarrow> FieldError list" where
  "Check_attribute attribute failures0 =
     (let failures1 =
            (if length (attr_Name attribute) < minTableAttributeName
             then failures0 @ [NewFieldErr typeOfAttribute Attribute_Name
                                 ''less than minimum length of 1'']
             else failures0);
          failures2 =
            (if length (attr_Name attribute) > maxTableAttributeName
             then failures1 @ [NewFieldErr typeOfAttribute Attribute_Name
                                 ''exceeded maximum length of 255'']
             else failures1)
      in if attr_Type attribute = ''S'' \<or> attr_Type attribute = ''N''
            \<or> attr_Type attribute = ''B''
         then failures2
         else failures2 @ [NewFieldErr typeOfAttribute Attribute_Type
                 ''not one of valid values S (string), N (number) or B (binary)''])"

text \<open>The body of the loop over the global secondary indexes.\<close>

definition Check_gsi :: "GlobalSecondaryIndex \<Rightarrow> FieldError list \<Rightarrow> FieldError list" where
  "Check_gsi gsi failures0 =
     (let name = gsi_IndexName gsi;
          failures1 =
            (if length name < minTableName
             then failures0 @ [NewFieldErr typeOfGlobalSecondaryIndex
                                 GlobalSecondaryIndex_IndexName ''less than minimum length of 3'']
             else failures0);
          failures2 =
            (if length name > maxTableName
             then failures1 @ [NewFieldErr typeOfGlobalSecondaryIndex
                                 GlobalSecondaryIndex_IndexName ''exceeded maximum length of 255'']
             else failures1);
          failures3 =
            (if gsi_ReadCapacity gsi < of_nat minReadCapacity
             then failures2 @ [NewFieldErr typeOfGlobalSecondaryIndex
                                 GlobalSecondaryIndex_ReadCapacity ''less than minimum of 1'']
             else failures2)
      in if gsi_WriteCapacity gsi < of_nat minWriteCapacity
         then failures3 @ [NewFieldErr typeOfGlobalSecondaryIndex
                             GlobalSecondaryIndex_WriteCapacity ''less than minimum of 1'']
         else failures3)"

definition Check :: "Table \<Rightarrow> FieldError list \<times> error option" where
  "Check obj =
     (let failures0 = [];
          failures1 =
            (case tab_TableName obj of
               None \<Rightarrow> failures0
             | Some name \<Rightarrow>
                 (let f1 = (if length name < minTableName
                            then failures0 @ [NewFieldErr typeOfTable Table_Name
                                                ''less than minimum length of 3'']
                            else failures0)
                  in if length name > maxTableName
                     then f1 @ [NewFieldErr typeOfTable Table_Name
                                  ''exceeded maximum length of 255'']
                     else f1));
          failures2 =
            (if tab_ReadCapacity obj < of_nat minReadCapacity
             then failures1 @ [NewFieldErr typeOfTable Table_ReadCapacity
                                 ''less than minimum of 1'']
             else failures1);
          failures3 =
            (if tab_WriteCapacity obj < of_nat minWriteCapacity
             then failures2 @ [NewFieldErr typeOfTable Table_WriteCapacity
                                 ''less than minimum of 1'']
             else failures2);
          failures4 = fold Check_attribute (tab_Attributes obj) failures3;
          failures5 =
            (case tab_GlobalSecondaryIndexes obj of
               None \<Rightarrow> failures4
             | Some gsis \<Rightarrow>
                 (let g1 = (if length gsis > maxGlobalSecondaryIndexes
                            then failures4 @ [NewFieldErr typeOfTable Table_GlobalSecondaryIndexes
                                                ''more than 5 global secondary indexes requested'']
                            else failures4)
                  in fold Check_gsi gsis g1))
      in (failures5, None))"

text \<open>
  The static rules as the specification lists them, each violation counted on its own:
  the name (if given) within [3,255]; an attribute's name within [1,255] and its type one
  of S, N, B; read and write capacity at least 1; an index's name within [3,255] and its
  read and write capacity at least 1; at most 5 indexes.
\<close>

definition b2n :: "bool \<Rightarrow> nat" where
  "b2n b = (if b then 1 else 0)"

definition attribute_violations :: "Attribute \<Rightarrow> nat" where
  "attribute_violations a =
     b2n (length (attr_Name a) < 1) + b2n (length (attr_Name a) > 255)
     + b2n (attr_Type a \<notin> {''S'', ''N'', ''B''})"

definition gsi_violations :: "GlobalSecondaryIndex \<Rightarrow> nat" where
  "gsi_violations g =
     b2n (length (gsi_IndexName g) < 3) + b2n (length (gsi_IndexName g) > 255)
     + b2n (gsi_ReadCapacity g < 1) + b2n (gsi_WriteCapacity g < 1)"

definition violations :: "Table \<Rightarrow> nat" where
  "violations obj =
     (case tab_TableName obj of
        None \<Rightarrow> 0
      | Some name \<Rightarrow> b2n (length name < 3) + b2n (length name > 255))
     + b2n (tab_ReadCapacity obj < 1) + b2n (tab_WriteCapacity obj < 1)
     + sum_list (map attribute_violations (tab_Attributes obj))
     + (case tab_GlobalSecondaryIndexes obj of
          None \<Rightarrow> 0
        | Some gsis \<Rightarrow> b2n (length gsis > 5) + sum_list (map gsi_violations gsis))"

definition valid_attribute :: "Attribute \<Rightarrow> bool" where
  "valid_attribute a =
     (1 \<le> length (attr_Name a) \<and> length (attr_Name a) \<le> 255
      \<and> attr_Type a \<in> {''S'', ''N'', ''B''})"

definition valid_gsi :: "GlobalSecondaryIndex \<Rightarrow> bool" where
  "valid_gsi g =
     (3 \<le> length (gsi_IndexName g) \<and> length (gsi_IndexName g) \<le> 255
      \<and> 1 \<le> gsi_ReadCapacity g \<and> 1 \<le> gsi_WriteCapacity g)"

definition valid :: "Table \<Rightarrow> bool" where
  "valid obj =
     ((case tab_TableName obj of
         None \<Rightarrow> True
       | Some name \<Rightarrow> 3 \<le> length name \<and> length name \<le> 255)
      \<and> 1 \<le> tab_ReadCapacity obj \<and> 1 \<le> tab_WriteCapacity obj
      \<and> list_all valid_attribute (tab_Attributes obj)
      \<and> (case tab_GlobalSecondaryIndexes obj of
            None \<Rightarrow> True
          | Some gsis \<Rightarrow> length gsis \<le> 5 \<and> list_all valid_gsi gsis))"

text \<open>A table description with several independent violations, and a valid one.\<close>

definition badTable :: Table where
  "badTable =
     \<lparr> tab_Name = Some ''t'', tab_HashKey = ''id'',
       tab_Attributes = [\<lparr> attr_Name = '''', attr_Type = ''X'' \<rparr>],
       tab_ReadCapacity = 0, tab_WriteCapacity = 5, tab_RangeKey = None,
       tab_TableName = Some ''ab'', tab_GlobalSecondaryIndexes = None \<rparr>"

definition ordersTable :: Table where
  "ordersTable =
     \<lparr> tab_Name = Some ''orders'', tab_HashKey = ''id'',
       tab_Attributes = [\<lparr> attr_Name = ''id'', attr_Type = ''S'' \<rparr>],
       tab_ReadCapacity = 5, tab_WriteCapacity = 5, tab_RangeKey = None,
       tab_TableName = Some ''orders'', tab_GlobalSecondaryIndexes = None \<rparr>"

subsection \<open>The requests and responses of the remote service (the AWS SDK)\<close>

record AttributeDefinition =
  ad_AttributeName :: string
  ad_AttributeType :: string

record KeySchemaElement =
  kse_AttributeName :: "string option"
  kse_KeyType :: string

record ProvisionedThroughput =
  pt_ReadCapacityUnits :: int
  pt_WriteCapacityUnits :: int

record Projection =
  pj_NonKeyAttributes :: "string list"
  pj_ProjectionType :: string

text \<open>
  The SDK's \<open>GlobalSecondaryIndex\<close>, \<open>CreateGlobalSecondaryIndexAction\<close> and
  \<open>GlobalSecondaryIndexDescription\<close> are used by the source with the same four fields;
  one record stands for the three.
\<close>

record IndexSpec =
  ix_IndexName :: string
  ix_KeySchema :: "KeySchemaElement list"
  ix_ProvisionedThroughput :: ProvisionedThroughput
  ix_Projection :: Projection

record CreateTableInput =
  cti_TableName :: string
  cti_AttributeDefinitions :: "AttributeDefinition list"
  cti_KeySchema :: "KeySchemaElement list"
  cti_ProvisionedThroughput :: ProvisionedThroughput
  cti_GlobalSecondaryIndexes :: "IndexSpec list"

text \<open>
  A \<open>GlobalSecondaryIndexUpdate\<close> of the SDK has three optional actions; the source always
  sets exactly one: \<open>Create\<close>, \<open>Update\<close> (the index name and its new throughput) or
  \<open>Delete\<close> (the index name).
\<close>

datatype GlobalSecondaryIndexUpdate =
    CreateAction IndexSpec
  | UpdateAction string ProvisionedThroughput
  | DeleteAction string

record UpdateTableInput =
  uti_TableName :: string
  uti_AttributeDefinitions :: "AttributeDefinition list"
  uti_ProvisionedThroughput :: "ProvisionedThroughput option"
  uti_GlobalSecondaryIndexUpdates :: "GlobalSecondaryIndexUpdate list"

record TableDescription =
  td_AttributeDefinitions :: "AttributeDefinition list"
  td_KeySchema :: "KeySchemaElement list"
  td_GlobalSecondaryIndexes :: "IndexSpec list"
  td_ProvisionedThroughput :: ProvisionedThroughput
  td_TableName :: "string option"
  td_TableStatus :: "string option"
  td_TableArn :: "string option"

text \<open>A remote call that was issued, with the response it got.\<close>

datatype event =
    EvCreateTable CreateTableInput "error + TableDescription"
  | EvDescribeTable string "error + TableDescription"
  | EvUpdateTable UpdateTableInput "error option"
  | EvDeleteTable string "error option"

text \<open>
  What the provider is given from outside this file. The four calls of the remote service
  act on the state \<open>'w\<close> of the remote world. \<open>ParseResourceName\<close> (package arn) and
  \<open>NewUniqueHex\<close> (package resource) are parameters, and so are the numbers of attempts
  of the two retry profiles of package awsctx.
\<close>

record 'w tableProvider =
  CreateTable :: "CreateTableInput \<Rightarrow> 'w \<Rightarrow> (error + TableDescription) \<times> 'w"
  DescribeTable :: "string \<Rightarrow> 'w \<Rightarrow> (error + TableDescription) \<times> 'w"
  UpdateTable :: "UpdateTableInput \<Rightarrow> 'w \<Rightarrow> error option \<times> 'w"
  DeleteTable :: "string \<Rightarrow> 'w \<Rightarrow> error option \<times> 'w"
  ParseResourceName :: "string \<Rightarrow> error + string"
  NewUniqueHex :: "string \<Rightarrow> nat \<Rightarrow> nat \<Rightarrow> string"
  RetryTries :: nat
  RetryTriesLong :: nat

definition callCreateTable ::
  "'w tableProvider \<Rightarrow> CreateTableInput \<Rightarrow> 'w \<Rightarrow> (error + TableDescription) \<times> event list \<times> 'w" where
  "callCreateTable p create w =
     (case CreateTable p create w of (resp, w') \<Rightarrow> (resp, [EvCreateTable create resp], w'))"

definition callDescribeTable ::
  "'w tableProvider \<Rightarrow> string \<Rightarrow> 'w \<Rightarrow> (error + TableDescription) \<times> event list \<times> 'w" where
  "callDescribeTable p name w =
     (case DescribeTable p name w of (resp, w') \<Rightarrow> (resp, [EvDescribeTable name resp], w'))"

definition callUpdateTable ::
  "'w tableProvider \<Rightarrow> UpdateTableInput \<Rightarrow> 'w \<Rightarrow> error option \<times> event list \<times> 'w" where
  "callUpdateTable p update w =
     (case UpdateTable p update w of (err, w') \<Rightarrow> (err, [EvUpdateTable update err], w'))"

definition callDeleteTable ::
  "'w tableProvider \<Rightarrow> string \<Rightarrow> 'w \<Rightarrow> error option \<times> event list \<times> 'w" where
  "callDeleteTable p name w =
     (case DeleteTable p name w of (err, w') \<Rightarrow> (err, [EvDeleteTable name err], w'))"

subsection \<open>The retry primitive (package awsctx)\<close>

text \<open>
  Modelled from the spec: \<open>awsctx.RetryUntil\<close> and \<open>awsctx.RetryUntilLong\<close> are not among
  the sources. Section 4.1 of the spec: the predicate is invoked until it returns
  \<open>done = true\<close>, or returns an error (propagated immediately, no further attempt), or the
  budget of attempts is exhausted. The callers in the source read the result as
  \<open>(succ, err)\<close> and build the error of an exhausted budget themselves from
  \<open>succ = false\<close>, so exhaustion is the result \<open>(false, nil)\<close>. The delay between two
  attempts is not modelled.
\<close>

primrec retry ::
  "nat \<Rightarrow> ('w \<Rightarrow> (bool \<times> error option) \<times> event list \<times> 'w) \<Rightarrow> 'w
     \<Rightarrow> (bool \<times> error option) \<times> event list \<times> 'w" where
  "retry 0 acceptor w = ((False, None), [], w)"
| "retry (Suc n) acceptor w =
     (case acceptor w of
        ((done, Some err), evs, w') \<Rightarrow> ((False, Some err), evs, w')
      | ((done, None), evs, w') \<Rightarrow>
          if done then ((True, None), evs, w')
          else (case retry n acceptor w' of (r, evs', w'') \<Rightarrow> (r, evs @ evs', w'')))"

definition RetryUntil ::
  "'w tableProvider \<Rightarrow> ('w \<Rightarrow> (bool \<times> error option) \<times> event list \<times> 'w) \<Rightarrow> 'w
     \<Rightarrow> (bool \<times> error option) \<times> event list \<times> 'w" where
  "RetryUntil p acceptor w = retry (RetryTries p) acceptor w"

definition RetryUntilLong ::
  "'w tableProvider \<Rightarrow> ('w \<Rightarrow> (bool \<times> error option) \<times> event list \<times> 'w) \<Rightarrow> 'w
     \<Rightarrow> (bool \<times> error option) \<times> event list \<times> 'w" where
  "RetryUntilLong p acceptor w = retry (RetryTriesLong p) acceptor w"

text \<open>
  \<open>if err := step; err != nil { return err }\<close> followed by the rest of the function: the
  rest runs only when the step returned no error, and the calls of both are recorded in
  order.
\<close>

definition andThen ::
  "('w \<Rightarrow> error option \<times> event list \<times> 'w) \<Rightarrow> ('w \<Rightarrow> error option \<times> event list \<times> 'w)
     \<Rightarrow> 'w \<Rightarrow> error option \<times> event list \<times> 'w" where
  "andThen step rest w =
     (case step w of
        (Some err, evs, w') \<Rightarrow> (Some err, evs, w')
      | (None, evs, w') \<Rightarrow> (case rest w' of (r, evs', w'') \<Rightarrow> (r, evs @ evs', w'')))"

text \<open>\<open>for _, o := range xs { if err := body(o); err != nil { return err } }\<close>\<close>

primrec forEach ::
  "('a \<Rightarrow> 'w \<Rightarrow> error option \<times> event list \<times> 'w) \<Rightarrow> 'a list
     \<Rightarrow> 'w \<Rightarrow> error option \<times> event list \<times> 'w" where
  "forEach body [] = (\<lambda>w. (None, [], w))"
| "forEach body (x # xs) = andThen (body x) (forEach body xs)"

subsection \<open>waitForTableState and updateTable\<close>

definition quoted :: "string \<Rightarrow> string" where
  "quoted name = [CHR 0x27] @ name @ [CHR 0x27]"

definition StringValue :: "string option \<Rightarrow> string" where
  "StringValue v = (case v of None \<Rightarrow> [] | Some s \<Rightarrow> s)"

definition waitForTableState_acceptor ::
  "'w tableProvider \<Rightarrow> string \<Rightarrow> bool \<Rightarrow> 'w \<Rightarrow> (bool \<times> error option) \<times> event list \<times> 'w" where
  "waitForTableState_acceptor p name exist w =
     (case callDescribeTable p name w of
        (Inl err, evs, w') \<Rightarrow>
          if IsAWSError err [''ResourceNotFoundException''] then ((\<not> exist, None), evs, w')
          else ((False, Some err), evs, w')
      | (Inr description, evs, w') \<Rightarrow>
          if exist \<and> StringValue (td_TableStatus description) \<noteq> ''ACTIVE''
          then ((False, None), evs, w')
          else ((exist, None), evs, w'))"

definition didNotBecome :: "string \<Rightarrow> bool \<Rightarrow> error" where
  "didNotBecome name exist =
     Errorf (''DynamoDB table '' @ quoted name @ '' did not become ''
             @ (if exist then ''active'' else ''deleted''))"

definition waitForTableState ::
  "'w tableProvider \<Rightarrow> string \<Rightarrow> bool \<Rightarrow> 'w \<Rightarrow> error option \<times> event list \<times> 'w" where
  "waitForTableState p name exist w =
     (case RetryUntilLong p (waitForTableState_acceptor p name exist) w of
        ((succ, Some err), evs, w') \<Rightarrow> (Some err, evs, w')
      | ((succ, None), evs, w') \<Rightarrow>
          if \<not> succ then (Some (didNotBecome name exist), evs, w')
          else (None, evs, w'))"

definition updateTable_acceptor ::
  "'w tableProvider \<Rightarrow> UpdateTableInput \<Rightarrow> 'w \<Rightarrow> (bool \<times> error option) \<times> event list \<times> 'w" where
  "updateTable_acceptor p update w =
     (case callUpdateTable p update w of
        (Some err, evs, w') \<Rightarrow>
          if IsAWSError err [''ResourceNotFoundException'', ''ResourceInUseException'']
          then ((False, None), evs, w')
          else ((False, Some err), evs, w')
      | (None, evs, w') \<Rightarrow> ((True, None), evs, w'))"

definition couldNotBeUpdated :: "string \<Rightarrow> error" where
  "couldNotBeUpdated name = Errorf (''DynamoDB table '' @ quoted name @ '' could not be updated'')"

definition updateTable ::
  "'w tableProvider \<Rightarrow> string \<Rightarrow> UpdateTableInput \<Rightarrow> 'w \<Rightarrow> error option \<times> event list \<times> 'w" where
  "updateTable p name update w =
     (case RetryUntil p (updateTable_acceptor p update) w of
        ((succ, Some err), evs, w') \<Rightarrow> (Some err, evs, w')
      | ((succ, None), evs, w') \<Rightarrow>
          if \<not> succ then (Some (couldNotBeUpdated name), evs, w')
          else (case waitForTableState p name True w' of
                  (r, evs', w'') \<Rightarrow> (r, evs @ evs', w'')))"

subsection \<open>Create\<close>

definition sha1_Size :: nat where "sha1_Size = 20"

text \<open>
  The key schema the source builds in three places (for the table, for an index of a new
  table, for an added index): the hash key, then the range key if there is one.
\<close>

definition keySchemaOf :: "string \<Rightarrow> string option \<Rightarrow> KeySchemaElement list" where
  "keySchemaOf hashKey rangeKey =
     (let keySchema = [\<lparr> kse_AttributeName = Some hashKey, kse_KeyType = hashKeyAttribute \<rparr>]
      in case rangeKey of
           None \<Rightarrow> keySchema
         | Some r \<Rightarrow> keySchema @ [\<lparr> kse_AttributeName = rangeKey, kse_KeyType = rangeKeyAttribute \<rparr>])"

definition go_int :: "rat \<Rightarrow> int" where
  "go_int x = (if 0 \<le> x then \<lfloor>x\<rfloor> else \<lceil>x\<rceil>)"

definition attributeDefinitionsOf :: "Attribute list \<Rightarrow> AttributeDefinition list" where
  "attributeDefinitionsOf attrs =
     map (\<lambda>attr. \<lparr> ad_AttributeName = attr_Name attr, ad_AttributeType = attr_Type attr \<rparr>) attrs"

definition indexSpecOf :: "GlobalSecondaryIndex \<Rightarrow> IndexSpec" where
  "indexSpecOf gsi =
     \<lparr> ix_IndexName = gsi_IndexName gsi,
       ix_KeySchema = keySchemaOf (gsi_HashKey gsi) (gsi_RangeKey gsi),
       ix_ProvisionedThroughput =
         \<lparr> pt_ReadCapacityUnits = go_int (gsi_ReadCapacity gsi),
           pt_WriteCapacityUnits = go_int (gsi_WriteCapacity gsi) \<rparr>,
       ix_Projection =
         \<lparr> pj_NonKeyAttributes = gsi_NonKeyAttributes gsi,
           pj_ProjectionType = gsi_ProjectionType gsi \<rparr> \<rparr>"

definition createTableInput :: "Table \<Rightarrow> string \<Rightarrow> CreateTableInput" where
  "createTableInput obj name =
     \<lparr> cti_TableName = name,
       cti_AttributeDefinitions = attributeDefinitionsOf (tab_Attributes obj),
       cti_KeySchema = keySchemaOf (tab_HashKey obj) (tab_RangeKey obj),
       cti_ProvisionedThroughput =
         \<lparr> pt_ReadCapacityUnits = go_int (tab_ReadCapacity obj),
           pt_WriteCapacityUnits = go_int (tab_WriteCapacity obj) \<rparr>,
       cti_GlobalSecondaryIndexes =
         (case tab_GlobalSecondaryIndexes obj of
            None \<Rightarrow> []
          | Some gsis \<Rightarrow> map indexSpecOf gsis) \<rparr>"

text \<open>
  The name of the table: the explicit name if one is given, otherwise a generated one;
  \<open>None\<close> stands for the nil dereference of \<open>*obj.Name\<close>.
\<close>

definition tableNameOf :: "'w tableProvider \<Rightarrow> Table \<Rightarrow> string option" where
  "tableNameOf p obj =
     (case tab_TableName obj of
        Some name \<Rightarrow> Some name
      | None \<Rightarrow>
          (case tab_Name obj of
             None \<Rightarrow> None
           | Some n \<Rightarrow> Some (NewUniqueHex p (n @ ''-'') maxTableName sha1_Size)))"

definition Create ::
  "'w tableProvider \<Rightarrow> Table \<Rightarrow> 'w \<Rightarrow> (string \<times> error option) \<times> event list \<times> 'w" where
  "Create p obj w =
     (case tableNameOf p obj of
        None \<Rightarrow> (([], Some (Panic ''nil pointer dereference'')), [], w)
      | Some name \<Rightarrow>
          (case callCreateTable p (createTableInput obj name) w of
             (Inl err, evs, w') \<Rightarrow> (([], Some err), evs, w')
           | (Inr resp, evs, w') \<Rightarrow>
               (case td_TableArn resp of
                  None \<Rightarrow> (([], Some (Panic ''assertion failed'')), evs, w')
                | Some arn \<Rightarrow>
                    (case waitForTableState p name True w' of
                       (Some err, evs', w'') \<Rightarrow> (([], Some err), evs @ evs', w'')
                     | (None, evs', w'') \<Rightarrow> ((arn, None), evs @ evs', w'')))))"

subsection \<open>Get and getHashRangeKeys\<close>

text \<open>
  The loop of \<open>getHashRangeKeys\<close> with its two variables; \<open>contract.Failf\<close> panics.
\<close>

fun getHashRangeKeys_loop ::
  "KeySchemaElement list \<Rightarrow> string option \<Rightarrow> string option
     \<Rightarrow> error + (string option \<times> string option)" where
  "getHashRangeKeys_loop [] hashKey rangeKey = Inr (hashKey, rangeKey)"
| "getHashRangeKeys_loop (elem # schema) hashKey rangeKey =
     (if kse_KeyType elem = hashKeyAttribute
      then getHashRangeKeys_loop schema (kse_AttributeName elem) rangeKey
      else if kse_KeyType elem = rangeKeyAttribute
      then getHashRangeKeys_loop schema hashKey (kse_AttributeName elem)
      else Inl (Panic (''Unexpected key schema attribute type: '' @ kse_KeyType elem)))"

definition getHashRangeKeys :: "KeySchemaElement list \<Rightarrow> error + (string \<times> string option)" where
  "getHashRangeKeys schema =
     (case getHashRangeKeys_loop schema None None of
        Inl e \<Rightarrow> Inl e
      | Inr (hashKey, rangeKey) \<Rightarrow>
          (case hashKey of
             None \<Rightarrow> Inl (Panic ''Expected to discover a hash partition key'')
           | Some h \<Rightarrow> Inr (h, rangeKey)))"

text \<open>The loop of \<open>Get\<close> over the indexes of the remote table.\<close>

fun Get_indexes :: "IndexSpec list \<Rightarrow> error + GlobalSecondaryIndex list" where
  "Get_indexes [] = Inr []"
| "Get_indexes (gsid # rest) =
     (case getHashRangeKeys (ix_KeySchema gsid) of
        Inl e \<Rightarrow> Inl e
      | Inr (hk, rk) \<Rightarrow>
          (case Get_indexes rest of
             Inl e \<Rightarrow> Inl e
           | Inr gis \<Rightarrow>
               Inr (\<lparr> gsi_IndexName = ix_IndexName gsid,
                      gsi_HashKey = hk,
                      gsi_ReadCapacity = of_int (pt_ReadCapacityUnits (ix_ProvisionedThroughput gsid)),
                      gsi_WriteCapacity = of_int (pt_WriteCapacityUnits (ix_ProvisionedThroughput gsid)),
                      gsi_RangeKey = rk,
                      gsi_NonKeyAttributes = pj_NonKeyAttributes (ix_Projection gsid),
                      gsi_ProjectionType = pj_ProjectionType (ix_Projection gsid) \<rparr> # gis)))"

definition Get ::
  "'w tableProvider \<Rightarrow> string \<Rightarrow> 'w \<Rightarrow> (Table option \<times> error option) \<times> event list \<times> 'w" where
  "Get p ident w =
     (case ParseResourceName p ident of
        Inl err \<Rightarrow>
          if IsAWSError err [''ResourceNotFoundException''] then ((None, None), [], w)
          else ((None, Some err), [], w)
      | Inr name \<Rightarrow>
          (case callDescribeTable p name w of
             (Inl err, evs, w') \<Rightarrow> ((None, Some err), evs, w')
           | (Inr tab, evs, w') \<Rightarrow>
               (let attributes =
                      map (\<lambda>attr. \<lparr> attr_Name = ad_AttributeName attr,
                                    attr_Type = ad_AttributeType attr \<rparr>)
                          (td_AttributeDefinitions tab)
                in case getHashRangeKeys (td_KeySchema tab) of
                     Inl e \<Rightarrow> ((None, Some e), evs, w')
                   | Inr (hashKey, rangeKey) \<Rightarrow>
                       (case (if length (td_GlobalSecondaryIndexes tab) > 0
                              then map_sum id Some (Get_indexes (td_GlobalSecondaryIndexes tab))
                              else Inr None) of
                          Inl e \<Rightarrow> ((None, Some e), evs, w')
                        | Inr gsis \<Rightarrow>
                            ((Some \<lparr> tab_Name = None,
                                     tab_HashKey = hashKey,
                                     tab_Attributes = attributes,
                                     tab_ReadCapacity =
                                       of_int (pt_ReadCapacityUnits (td_ProvisionedThroughput tab)),
                                     tab_WriteCapacity =
                                       of_int (pt_WriteCapacityUnits (td_ProvisionedThroughput tab)),
                                     tab_RangeKey = rangeKey,
                                     tab_TableName = td_TableName tab,
                                     tab_GlobalSecondaryIndexes = gsis \<rparr>, None), evs, w')))))"

subsection \<open>The hash set of secondary indexes\<close>

text \<open>
  \<open>string(i)\<close> of an integer \<open>i\<close> is, in Go, the UTF-8 encoding of the code point \<open>i\<close>, and
  of U+FFFD when \<open>i\<close> is not a valid code point (negative, a surrogate, or above
  U+10FFFF). A hash value is modelled by the sequence of code points it encodes: UTF-8
  is injective and prefix-free, so two hash values are equal strings exactly when they
  are equal sequences of code points, and equality is all a hash value is used for.
\<close>

definition go_string_of_int :: "int \<Rightarrow> int list" where
  "go_string_of_int i =
     (if (0 \<le> i \<and> i < 0xD800) \<or> (0xDFFF < i \<and> i \<le> 0x10FFFF) then [i] else [0xFFFD])"

datatype globalSecondaryIndexHash = globalSecondaryIndexHash (item: GlobalSecondaryIndex)

definition HashKey :: "globalSecondaryIndexHash \<Rightarrow> string" where
  "HashKey option = gsi_IndexName (item option)"

definition HashValue :: "globalSecondaryIndexHash \<Rightarrow> int list" where
  "HashValue option =
     go_string_of_int (go_int (gsi_ReadCapacity (item option))) @ [0x3A]
     @ go_string_of_int (go_int (gsi_WriteCapacity (item option)))"

text \<open>
  Modelled from the spec: \<open>awsctx.HashSet\<close> with \<open>NewHashSet\<close>, \<open>Add\<close>, \<open>Diff\<close> and the
  \<open>Adds\<close>, \<open>Updates\<close>, \<open>Deletes\<close> of a diff are not among the sources. Sections 3 and 9 of
  the spec: the old and the new indexes are held as maps keyed by index name (the hash
  key) and diffed by presence and by a derived comparison key (the hash value):
  additions are present only in the new set, removals only in the old set, and
  modifications are present in both with different comparison keys. A modification is
  the item of the new set, since \<open>Update\<close> reads the new capacity from it. The set is an
  association list; adding an item whose key is present replaces the item. The order of
  the items within \<open>Adds\<close>, \<open>Updates\<close> and \<open>Deletes\<close> is the order of the association
  list; the source does not fix it.
\<close>

type_synonym HashSet = "(string \<times> globalSecondaryIndexHash) list"

definition NewHashSet :: HashSet where
  "NewHashSet = []"

definition Add :: "HashSet \<Rightarrow> globalSecondaryIndexHash \<Rightarrow> HashSet" where
  "Add set0 h = AList.update (HashKey h) h set0"

record HashSetDiff =
  Adds :: "globalSecondaryIndexHash list"
  Updates :: "globalSecondaryIndexHash list"
  Deletes :: "globalSecondaryIndexHash list"

definition Diff :: "HashSet \<Rightarrow> HashSet \<Rightarrow> HashSetDiff" where
  "Diff old new =
     \<lparr> Adds = map snd (filter (\<lambda>(k, h). map_of old k = None) new),
       Updates = map snd (filter (\<lambda>(k, h). case map_of old k of
                                               None \<Rightarrow> False
                                             | Some h0 \<Rightarrow> HashValue h0 \<noteq> HashValue h) new),
       Deletes = map snd (filter (\<lambda>(k, h). map_of new k = None) old) \<rparr>"

definition newGlobalSecondaryIndexHashSet :: "GlobalSecondaryIndex list option \<Rightarrow> HashSet" where
  "newGlobalSecondaryIndexHashSet options =
     (case options of
        None \<Rightarrow> NewHashSet
      | Some opts \<Rightarrow> fold (\<lambda>option set0. Add set0 (globalSecondaryIndexHash option)) opts NewHashSet)"

subsection \<open>Update\<close>

definition throughputUpdate :: "string \<Rightarrow> Table \<Rightarrow> UpdateTableInput" where
  "throughputUpdate name new =
     \<lparr> uti_TableName = name,
       uti_AttributeDefinitions = [],
       uti_ProvisionedThroughput =
         Some \<lparr> pt_ReadCapacityUnits = go_int (tab_ReadCapacity new),
                pt_WriteCapacityUnits = go_int (tab_WriteCapacity new) \<rparr>,
       uti_GlobalSecondaryIndexUpdates = [] \<rparr>"

definition createIndexUpdate :: "string \<Rightarrow> Table \<Rightarrow> globalSecondaryIndexHash \<Rightarrow> UpdateTableInput" where
  "createIndexUpdate name new h =
     (let gsi = item h
      in \<lparr> uti_TableName = name,
           uti_AttributeDefinitions = attributeDefinitionsOf (tab_Attributes new),
           uti_ProvisionedThroughput = None,
           uti_GlobalSecondaryIndexUpdates = [CreateAction (indexSpecOf gsi)] \<rparr>)"

definition updateIndexUpdate :: "string \<Rightarrow> globalSecondaryIndexHash \<Rightarrow> UpdateTableInput" where
  "updateIndexUpdate name h =
     (let gsi = item h
      in \<lparr> uti_TableName = name,
           uti_AttributeDefinitions = [],
           uti_ProvisionedThroughput = None,
           uti_GlobalSecondaryIndexUpdates =
             [UpdateAction (gsi_IndexName gsi)
                \<lparr> pt_ReadCapacityUnits = go_int (gsi_ReadCapacity gsi),
                  pt_WriteCapacityUnits = go_int (gsi_WriteCapacity gsi) \<rparr>] \<rparr>)"

definition deleteIndexUpdate :: "string \<Rightarrow> globalSecondaryIndexHash \<Rightarrow> UpdateTableInput" where
  "deleteIndexUpdate name h =
     (let gsi = item h
      in \<lparr> uti_TableName = name,
           uti_AttributeDefinitions = [],
           uti_ProvisionedThroughput = None,
           uti_GlobalSecondaryIndexUpdates = [DeleteAction (gsi_IndexName gsi)] \<rparr>)"

definition Update ::
  "'w tableProvider \<Rightarrow> string \<Rightarrow> Table \<Rightarrow> Table \<Rightarrow> ObjectDiff \<Rightarrow> 'w
     \<Rightarrow> error option \<times> event list \<times> 'w" where
  "Update p ident old new diff w =
     (case ParseResourceName p ident of
        Inl err \<Rightarrow> (Some err, [], w)
      | Inr name \<Rightarrow>
          andThen
            (if Changed diff Table_ReadCapacity \<or> Changed diff Table_WriteCapacity
             then updateTable p name (throughputUpdate name new)
             else (\<lambda>w. (None, [], w)))
            (if Changed diff Table_GlobalSecondaryIndexes
             then (let newGlobalSecondaryIndexes =
                         newGlobalSecondaryIndexHashSet (tab_GlobalSecondaryIndexes new);
                       oldGlobalSecondaryIndexes =
                         newGlobalSecondaryIndexHashSet (tab_GlobalSecondaryIndexes old);
                       d = Diff oldGlobalSecondaryIndexes newGlobalSecondaryIndexes
                   in andThen
                        (forEach (\<lambda>h. updateTable p name (createIndexUpdate name new h)) (Adds d))
                        (andThen
                           (forEach (\<lambda>h. updateTable p name (updateIndexUpdate name h)) (Updates d))
                           (andThen
                              (forEach (\<lambda>h. updateTable p name (deleteIndexUpdate name h)) (Deletes d))
                              (waitForTableState p name True))))
             else (\<lambda>w. (None, [], w)))
            w)"

subsection \<open>Delete\<close>

definition Delete_acceptor ::
  "'w tableProvider \<Rightarrow> string \<Rightarrow> 'w \<Rightarrow> (bool \<times> error option) \<times> event list \<times> 'w" where
  "Delete_acceptor p name w =
     (case callDeleteTable p name w of
        (Some err, evs, w') \<Rightarrow>
          if IsAWSError err [ErrCodeResourceNotFoundException] then ((True, None), evs, w')
          else if IsAWSError err [ErrCodeResourceInUseException] then ((False, None), evs, w')
          else ((False, Some err), evs, w')
      | (None, evs, w') \<Rightarrow> ((True, None), evs, w'))"

definition couldNotBeDeleted :: "string \<Rightarrow> error" where
  "couldNotBeDeleted name = Errorf (''DynamoDB table '' @ quoted name @ '' could not be deleted'')"

definition Delete ::
  "'w tableProvider \<Rightarrow> string \<Rightarrow> 'w \<Rightarrow> error option \<times> event list \<times> 'w" where
  "Delete p ident w =
     (case ParseResourceName p ident of
        Inl err \<Rightarrow> (Some err, [], w)
      | Inr name \<Rightarrow>
          (case RetryUntilLong p (Delete_acceptor p name) w of
             ((succ, Some err), evs, w') \<Rightarrow> (Some err, evs, w')
           | ((succ, None), evs, w') \<Rightarrow>
               if \<not> succ then (Some (couldNotBeDeleted name), evs, w')
               else (case waitForTableState p name False w' of
                       (r, evs', w'') \<Rightarrow> (r, evs @ evs', w''))))"

subsection \<open>Reading the record of remote calls\<close>

text \<open>The \<open>UpdateTable\<close> requests of a record, in order: all of them, and those accepted.\<close>

fun updateRequests :: "event list \<Rightarrow> UpdateTableInput list" where
  "updateRequests [] = []"
| "updateRequests (EvUpdateTable update err # evs) = update # updateRequests evs"
| "updateRequests (ev # evs) = updateRequests evs"

fun acceptedUpdates :: "event list \<Rightarrow> UpdateTableInput list" where
  "acceptedUpdates [] = []"
| "acceptedUpdates (EvUpdateTable update None # evs) = update # acceptedUpdates evs"
| "acceptedUpdates (ev # evs) = acceptedUpdates evs"

text \<open>The index actions (create, update, delete) that the requests of a record carry.\<close>

definition indexActions :: "event list \<Rightarrow> GlobalSecondaryIndexUpdate list" where
  "indexActions evs = concat (map uti_GlobalSecondaryIndexUpdates (updateRequests evs))"

fun deleteResponses :: "event list \<Rightarrow> error option list" where
  "deleteResponses [] = []"
| "deleteResponses (EvDeleteTable name err # evs) = err # deleteResponses evs"
| "deleteResponses (ev # evs) = deleteResponses evs"

fun createRequests :: "event list \<Rightarrow> CreateTableInput list" where
  "createRequests [] = []"
| "createRequests (EvCreateTable create resp # evs) = create # createRequests evs"
| "createRequests (ev # evs) = createRequests evs"

fun isDescribe :: "string \<Rightarrow> event \<Rightarrow> bool" where
  "isDescribe name (EvDescribeTable n resp) = (n = name)"
| "isDescribe name ev = False"

definition reportsActive :: "error + TableDescription \<Rightarrow> bool" where
  "reportsActive resp =
     (case resp of Inl err \<Rightarrow> False | Inr d \<Rightarrow> StringValue (td_TableStatus d) = ''ACTIVE'')"

text \<open>
  \<open>sequenced pending evs\<close>: no \<open>UpdateTable\<close> request of \<open>evs\<close> is issued while an accepted
  request is pending, that is, before a \<open>DescribeTable\<close> call has reported the table
  active after it. \<open>pending\<close> says whether a request is pending when \<open>evs\<close> begins, and
  \<open>pendingAfter pending evs\<close> whether one is pending when \<open>evs\<close> ends.
\<close>

fun sequenced :: "bool \<Rightarrow> event list \<Rightarrow> bool" where
  "sequenced pending [] = True"
| "sequenced pending (EvUpdateTable update err # evs) = (\<not> pending \<and> sequenced (err = None) evs)"
| "sequenced pending (EvDescribeTable name resp # evs) =
     sequenced (pending \<and> \<not> reportsActive resp) evs"
| "sequenced pending (ev # evs) = sequenced pending evs"

fun pendingAfter :: "bool \<Rightarrow> event list \<Rightarrow> bool" where
  "pendingAfter pending [] = pending"
| "pendingAfter pending (EvUpdateTable update err # evs) = pendingAfter (err = None) evs"
| "pendingAfter pending (EvDescribeTable name resp # evs) =
     pendingAfter (pending \<and> \<not> reportsActive resp) evs"
| "pendingAfter pending (ev # evs) = pendingAfter pending evs"

text \<open>
  The steps of an update as section 4.5 of the spec orders them: the throughput-only
  update if the capacity changed, then one create-index update per addition, one
  update-index-capacity update per modification and one delete-index update per removal.
\<close>

definition updatePlan :: "string \<Rightarrow> Table \<Rightarrow> Table \<Rightarrow> ObjectDiff \<Rightarrow> UpdateTableInput list" where
  "updatePlan name old new diff =
     (if Changed diff Table_ReadCapacity \<or> Changed diff Table_WriteCapacity
      then [throughputUpdate name new] else [])
     @ (if Changed diff Table_GlobalSecondaryIndexes
        then (let d = Diff (newGlobalSecondaryIndexHashSet (tab_GlobalSecondaryIndexes old))
                           (newGlobalSecondaryIndexHashSet (tab_GlobalSecondaryIndexes new))
              in map (createIndexUpdate name new) (Adds d)
                 @ map (updateIndexUpdate name) (Updates d)
                 @ map (deleteIndexUpdate name) (Deletes d))
        else [])"

text \<open>
  An operation follows a plan: the requests it gets accepted are, in order, a prefix of
  the plan, and the whole plan when it returns no error; every request it issues is one
  of the plan; it never issues a request while an accepted one is pending; and it issues
  no \<open>CreateTable\<close> and no \<open>DeleteTable\<close> call.
\<close>

definition follows :: "UpdateTableInput list \<Rightarrow> error option \<times> event list \<times> 'w \<Rightarrow> bool" where
  "follows plan out =
     (case out of
        (res, evs, w') \<Rightarrow>
          prefix (acceptedUpdates evs) plan
          \<and> (res = None \<longrightarrow> acceptedUpdates evs = plan)
          \<and> set (updateRequests evs) \<subseteq> set plan
          \<and> sequenced False evs
          \<and> (res = None \<longrightarrow> \<not> pendingAfter False evs)
          \<and> createRequests evs = [] \<and> deleteResponses evs = [])"

text \<open>The responses to a \<open>DeleteTable\<close> call that \<open>Delete\<close> tells apart.\<close>

definition inUse :: "error option \<Rightarrow> bool" where
  "inUse r = (case r of None \<Rightarrow> False | Some err \<Rightarrow> IsAWSError err [ErrCodeResourceInUseException])"

definition alreadyAbsent :: "error option \<Rightarrow> bool" where
  "alreadyAbsent r =
     (case r of None \<Rightarrow> False | Some err \<Rightarrow> IsAWSError err [ErrCodeResourceNotFoundException])"

text \<open>The index names of a list of hashed indexes, and of a hash set.\<close>

definition indexNames :: "globalSecondaryIndexHash list \<Rightarrow> string set" where
  "indexNames hs = set (map HashKey hs)"

definition keysOf :: "HashSet \<Rightarrow> string set" where
  "keysOf s = set (map fst s)"

text \<open>
  The capacities for which the hash value tells two capacities apart exactly when their
  integer parts differ: those whose integer part is a valid code point (from 0 to 55295,
  or from 57344 to 1114111).
\<close>

definition plainCapacity :: "rat \<Rightarrow> bool" where
  "plainCapacity c =
     ((0 \<le> go_int c \<and> go_int c < 0xD800) \<or> (0xDFFF < go_int c \<and> go_int c \<le> 0x10FFFF))"

definition plainIndex :: "globalSecondaryIndexHash \<Rightarrow> bool" where
  "plainIndex h =
     (plainCapacity (gsi_ReadCapacity (item h)) \<and> plainCapacity (gsi_WriteCapacity (item h)))"

definition wellFormedKeySchema :: "KeySchemaElement list \<Rightarrow> bool" where
  "wellFormedKeySchema schema =
     (list_all (\<lambda>el. (kse_KeyType el = hashKeyAttribute \<or> kse_KeyType el = rangeKeyAttribute)
                     \<and> kse_AttributeName el \<noteq> None) schema
      \<and> list_ex (\<lambda>el. kse_KeyType el = hashKeyAttribute) schema)"

definition otherRole :: "KeySchemaElement \<Rightarrow> bool" where
  "otherRole el = (kse_KeyType el \<noteq> hashKeyAttribute \<and> kse_KeyType el \<noteq> rangeKeyAttribute)"

subsection \<open>A scripted remote service\<close>

text \<open>
  A remote service for concrete runs: the state of the world is the number of calls made
  so far, and the response to a call is a function of that number.
\<close>

definition activeTable :: TableDescription where
  "activeTable =
     \<lparr> td_AttributeDefinitions = [\<lparr> ad_AttributeName = ''id'', ad_AttributeType = ''S'' \<rparr>],
       td_KeySchema = [\<lparr> kse_AttributeName = Some ''id'', kse_KeyType = ''HASH'' \<rparr>],
       td_GlobalSecondaryIndexes = [],
       td_ProvisionedThroughput = \<lparr> pt_ReadCapacityUnits = 5, pt_WriteCapacityUnits = 5 \<rparr>,
       td_TableName = Some ''orders'',
       td_TableStatus = Some ''ACTIVE'',
       td_TableArn = Some ''arn:aws:dynamodb:us-east-1:1:table/orders'' \<rparr>"

definition parseNonEmpty :: "string \<Rightarrow> error + string" where
  "parseNonEmpty ident =
     (if ident = [] then Inl (Errorf ''not a resource name'') else Inr ident)"

definition scripted ::
  "(nat \<Rightarrow> error + TableDescription) \<Rightarrow> (nat \<Rightarrow> error + TableDescription)
     \<Rightarrow> (nat \<Rightarrow> error option) \<Rightarrow> (nat \<Rightarrow> error option) \<Rightarrow> nat \<Rightarrow> nat \<Rightarrow> nat tableProvider" where
  "scripted create describe update delete tries triesLong =
     \<lparr> CreateTable = (\<lambda>inp n. (create n, Suc n)),
       DescribeTable = (\<lambda>name n. (describe n, Suc n)),
       UpdateTable = (\<lambda>inp n. (update n, Suc n)),
       DeleteTable = (\<lambda>name n. (delete n, Suc n)),
       ParseResourceName = parseNonEmpty,
       NewUniqueHex = (\<lambda>prefix maxlen randlen. prefix @ ''0''),
       RetryTries = tries,
       RetryTriesLong = triesLong \<rparr>"

definition notFound :: error where
  "notFound = AWSError ''ResourceNotFoundException'' ''Requested resource not found''"

definition resourceInUse :: error where
  "resourceInUse = AWSError ''ResourceInUseException'' ''Attempt to change a resource which is still in use''"

text \<open>A service on which everything succeeds at once and the table is active.\<close>

definition calm :: "nat tableProvider" where
  "calm = scripted (\<lambda>n. Inr activeTable) (\<lambda>n. Inr activeTable) (\<lambda>n. None) (\<lambda>n. None) 2 3"

text \<open>A service that rejects the first call, if it is an update, as in use.\<close>

definition busyOnce :: "nat tableProvider" where
  "busyOnce =
     scripted (\<lambda>n. Inr activeTable) (\<lambda>n. Inr activeTable)
       (\<lambda>n. if n = 0 then Some resourceInUse else None) (\<lambda>n. None) 2 3"

text \<open>A service on which the table does not exist.\<close>

definition gone :: "nat tableProvider" where
  "gone = scripted (\<lambda>n. Inr activeTable) (\<lambda>n. Inl notFound) (\<lambda>n. Some notFound) (\<lambda>n. Some notFound) 2 3"

text \<open>A service on which the table is in use for ever.\<close>

definition busyForEver :: "nat tableProvider" where
  "busyForEver =
     scripted (\<lambda>n. Inl resourceInUse) (\<lambda>n. Inr activeTable)
       (\<lambda>n. Some resourceInUse) (\<lambda>n. Some resourceInUse) 1 2"

definition byStatus :: GlobalSecondaryIndex where
  "byStatus =
     \<lparr> gsi_IndexName = ''byStatus'', gsi_HashKey = ''status'',
       gsi_ReadCapacity = 5, gsi_WriteCapacity = 5, gsi_RangeKey = None,
       gsi_NonKeyAttributes = [], gsi_ProjectionType = ''ALL'' \<rparr>"

definition byDate :: GlobalSecondaryIndex where
  "byDate =
     \<lparr> gsi_IndexName = ''byDate'', gsi_HashKey = ''date'',
       gsi_ReadCapacity = 5, gsi_WriteCapacity = 5, gsi_RangeKey = None,
       gsi_NonKeyAttributes = [], gsi_ProjectionType = ''ALL'' \<rparr>"

definition keySchemaIdTs :: "KeySchemaElement list" where
  "keySchemaIdTs =
     [\<lparr> kse_AttributeName = Some ''id'', kse_KeyType = ''HASH'' \<rparr>,
      \<lparr> kse_AttributeName = Some ''ts'', kse_KeyType = ''RANGE'' \<rparr>]"

text \<open>Desired states for concrete runs of \<open>Update\<close>.\<close>

definition ordersTable10 :: Table where
  "ordersTable10 = ordersTable \<lparr> tab_ReadCapacity := 10, tab_WriteCapacity := 10 \<rparr>"

definition ordersByStatus :: Table where
  "ordersByStatus = ordersTable \<lparr> tab_GlobalSecondaryIndexes := Some [byStatus] \<rparr>"

definition ordersByDate10 :: Table where
  "ordersByDate10 = ordersTable10 \<lparr> tab_GlobalSecondaryIndexes := Some [byDate] \<rparr>"

text \<open>Two indexes of one name whose capacities differ in their fractional parts only.\<close>

definition byStatusA :: GlobalSecondaryIndex where
  "byStatusA = byStatus \<lparr> gsi_ReadCapacity := 11 / 2 \<rparr>"

definition byStatusB :: GlobalSecondaryIndex where
  "byStatusB = byStatus \<lparr> gsi_ReadCapacity := 26 / 5 \<rparr>"

definition byStatus10 :: GlobalSecondaryIndex where
  "byStatus10 = byStatus \<lparr> gsi_ReadCapacity := 10 \<rparr>"

definition ordersA :: Table where
  "ordersA = ordersTable \<lparr> tab_GlobalSecondaryIndexes := Some [byStatusA] \<rparr>"

definition ordersB :: Table where
  "ordersB = ordersTable \<lparr> tab_GlobalSecondaryIndexes := Some [byStatusB] \<rparr>"

text \<open>
  The errors of an \<open>UpdateTable\<close> request that \<open>updateTable\<close> retries; a request of a given
  update; a request that was answered with an error.
\<close>

definition transient :: "error \<Rightarrow> bool" where
  "transient x = IsAWSError x [''ResourceNotFoundException'', ''ResourceInUseException'']"

fun requestOf :: "UpdateTableInput \<Rightarrow> event \<Rightarrow> bool" where
  "requestOf u (EvUpdateTable update err) = (update = u)"
| "requestOf u ev = False"

fun rejected :: "event \<Rightarrow> bool" where
  "rejected (EvUpdateTable update (Some x)) = True"
| "rejected ev = False"

text \<open>
  \<open>reissued evs\<close>: every \<open>UpdateTable\<close> request of \<open>evs\<close> that was answered with an error and
  is not the last call of \<open>evs\<close> was answered "in use" or "not found" and is followed at
  once, with no other call in between, by a request of the same update.
\<close>

fun reissued :: "event list \<Rightarrow> bool" where
  "reissued (EvUpdateTable update (Some x) # ev # evs) =
     (transient x \<and> requestOf update ev \<and> reissued (ev # evs))"
| "reissued (ev # evs) = reissued evs"
| "reissued [] = True"

text \<open>
  An operation carries out a plan: besides following it, a rejected request is issued
  again at once; the operation ends without error only after a \<open>DescribeTable\<close> call
  (or with no call at all); it ends with an error only when an accepted request is still
  pending (its wait failed) or the next request of the plan was rejected for good; and a
  request rejected for good either got an error that is not retried, which is the
  result, or was issued as often as the short retry profile allows, and the result is
  the error "could not be updated".
\<close>

definition carriesOut ::
  "'w tableProvider \<Rightarrow> string \<Rightarrow> UpdateTableInput list \<Rightarrow> error option \<times> event list \<times> 'w \<Rightarrow> bool" where
  "carriesOut p name plan out =
     (case out of
        (res, evs, w') \<Rightarrow>
          follows plan out
          \<and> reissued evs
          \<and> (res = None \<longrightarrow> evs = [] \<or> isDescribe name (last evs))
          \<and> (res \<noteq> None \<longrightarrow>
                pendingAfter False evs
                \<or> (evs \<noteq> [] \<and> rejected (last evs)
                    \<and> length (acceptedUpdates evs) < length plan
                    \<and> requestOf (plan ! length (acceptedUpdates evs)) (last evs)))
          \<and> (\<forall>u x. evs \<noteq> [] \<and> last evs = EvUpdateTable u (Some x) \<longrightarrow>
                (if transient x
                 then res = Some (couldNotBeUpdated name)
                      \<and> length (takeWhile (requestOf u) (rev evs)) = RetryTries p
                 else res = Some x)))"

text \<open>A service on which every update is rejected as in use.\<close>

definition alwaysBusy :: "nat tableProvider" where
  "alwaysBusy =
     scripted (\<lambda>n. Inr activeTable) (\<lambda>n. Inr activeTable)
       (\<lambda>n. Some resourceInUse) (\<lambda>n. None) 2 3"

section \<open>Properties\<close>

subsection \<open>Check\<close>

lemma length_fold_Check_attribute:
  "length (fold Check_attribute attrs failures)
     = length failures + sum_list (map attribute_violations attrs)"
  by (induction attrs arbitrary: failures)
     (auto simp: Check_attribute_def attribute_violations_def b2n_def Let_def
        minTableAttributeName_def maxTableAttributeName_def)

lemma length_fold_Check_gsi:
  "length (fold Check_gsi gsis failures) = length failures + sum_list (map gsi_violations gsis)"
  by (induction gsis arbitrary: failures)
     (auto simp: Check_gsi_def gsi_violations_def b2n_def Let_def
        minTableName_def maxTableName_def minReadCapacity_def minWriteCapacity_def)

lemma length_Check: "length (fst (Check obj)) = violations obj"
  by (auto simp: Check_def violations_def Let_def length_fold_Check_attribute
        length_fold_Check_gsi b2n_def minTableName_def maxTableName_def minReadCapacity_def
        minWriteCapacity_def maxGlobalSecondaryIndexes_def
      split: option.splits)

lemma attribute_violations_0: "attribute_violations a = 0 \<longleftrightarrow> valid_attribute a"
  by (auto simp: attribute_violations_def valid_attribute_def b2n_def Suc_le_eq split: if_splits)

lemma gsi_violations_0: "gsi_violations g = 0 \<longleftrightarrow> valid_gsi g"
  by (auto simp: gsi_violations_def valid_gsi_def b2n_def split: if_splits)

lemma violations_0_iff_valid: "violations obj = 0 \<longleftrightarrow> valid obj"
  by (auto simp: violations_def valid_def attribute_violations_0 gsi_violations_0 b2n_def
        list_all_iff
      split: option.splits if_splits)

text \<open>
  C4. \<open>Check\<close> is a function of the description alone (it is given no remote service and
  issues no call), its error result is always nil, it returns one field error for every
  violation of the static rules, counted independently (\<open>violations\<close>), and it returns the
  empty list exactly when the description is valid.
\<close>

theorem Check_collects_every_violation:
  "snd (Check obj) = None
   \<and> length (fst (Check obj)) = violations obj
   \<and> (fst (Check obj) = [] \<longleftrightarrow> valid obj)"
proof -
  have "snd (Check obj) = None" by (simp add: Check_def Let_def)
  moreover have len: "length (fst (Check obj)) = violations obj" by (rule length_Check)
  moreover have "fst (Check obj) = [] \<longleftrightarrow> valid obj"
    using len violations_0_iff_valid [of obj] by (metis length_0_conv)
  ultimately show ?thesis by blast
qed

text \<open>
  A description whose name is too short, whose read capacity is below the minimum and
  whose attribute has an empty name and an unknown type gets four errors; a valid one
  gets none.
\<close>

theorem Check_collects_every_violation_witness:
  "length (fst (Check badTable)) = 4 \<and> fst (Check ordersTable) = [] \<and> valid ordersTable
   \<and> snd (Check badTable) = None"
proof -
  have v: "violations badTable = 4"
    by (simp add: violations_def badTable_def b2n_def attribute_violations_def)
  have ok: "valid ordersTable"
    by (simp add: valid_def ordersTable_def valid_attribute_def)
  show ?thesis
    using Check_collects_every_violation [of badTable]
      Check_collects_every_violation [of ordersTable] v ok
    by simp
qed

subsection \<open>getHashRangeKeys\<close>

lemma loop_other_role:
  "\<exists>el\<in>set schema. otherRole el
     \<Longrightarrow> \<exists>msg. getHashRangeKeys_loop schema hk rk = Inl (Panic msg)"
  by (induction schema arbitrary: hk rk) (auto simp: otherRole_def)

lemma loop_Inl:
  "getHashRangeKeys_loop schema hk rk = Inl e
     \<Longrightarrow> (\<exists>msg. e = Panic msg) \<and> (\<exists>el\<in>set schema. otherRole el)"
  by (induction schema arbitrary: hk rk) (auto simp: otherRole_def split: if_splits)

lemma loop_Inr:
  "getHashRangeKeys_loop schema hk rk = Inr (h, r) \<Longrightarrow>
     (\<forall>el\<in>set schema. \<not> otherRole el)
     \<and> (if \<exists>el\<in>set schema. kse_KeyType el = hashKeyAttribute
         then \<exists>el\<in>set schema. kse_KeyType el = hashKeyAttribute \<and> kse_AttributeName el = h
         else h = hk)
     \<and> (if \<exists>el\<in>set schema. kse_KeyType el = rangeKeyAttribute
         then \<exists>el\<in>set schema. kse_KeyType el = rangeKeyAttribute \<and> kse_AttributeName el = r
         else r = rk)"
proof (induction schema arbitrary: hk rk)
  case Nil
  then show ?case by simp
next
  case (Cons el schema)
  show ?case
  proof (cases "kse_KeyType el = hashKeyAttribute")
    case True
    with Cons.prems
    have "getHashRangeKeys_loop schema (kse_AttributeName el) rk = Inr (h, r)" by simp
    from Cons.IH [OF this] True show ?thesis
      by (auto simp: otherRole_def hashKeyAttribute_def rangeKeyAttribute_def split: if_splits)
  next
    case False
    note nh = this
    show ?thesis
    proof (cases "kse_KeyType el = rangeKeyAttribute")
      case True
      with nh Cons.prems
      have "getHashRangeKeys_loop schema hk (kse_AttributeName el) = Inr (h, r)" by simp
      from Cons.IH [OF this] True nh show ?thesis
        by (auto simp: otherRole_def split: if_splits)
    next
      case False
      with nh Cons.prems show ?thesis by simp
    qed
  qed
qed

lemma loop_total:
  "\<forall>el\<in>set schema. \<not> otherRole el \<Longrightarrow> \<exists>h r. getHashRangeKeys_loop schema hk rk = Inr (h, r)"
  by (induction schema arbitrary: hk rk) (auto simp: otherRole_def)

text \<open>
  C7. From a key-schema list \<open>getHashRangeKeys\<close> recovers one hash key and at most one
  range key (its result is a key and an optional key), each the attribute name of an
  entry with that role. An entry with a role other than HASH or RANGE makes it panic, and
  so does a list without a HASH entry; a panic is its only failure. On a well-formed
  list (every entry has role HASH or RANGE and a name, and there is a HASH entry) it
  does not fail.
\<close>

theorem getHashRangeKeys_invariant:
  "(list_ex otherRole schema \<longrightarrow> (\<exists>msg. getHashRangeKeys schema = Inl (Panic msg)))
   \<and> (\<not> list_ex (\<lambda>el. kse_KeyType el = hashKeyAttribute) schema
        \<longrightarrow> (\<exists>msg. getHashRangeKeys schema = Inl (Panic msg)))
   \<and> (wellFormedKeySchema schema \<longrightarrow> (\<exists>h r. getHashRangeKeys schema = Inr (h, r)))
   \<and> (\<forall>e. getHashRangeKeys schema = Inl e \<longrightarrow> (\<exists>msg. e = Panic msg))
   \<and> (\<forall>h r. getHashRangeKeys schema = Inr (h, r) \<longrightarrow>
         \<not> list_ex otherRole schema
         \<and> (\<exists>el\<in>set schema. kse_KeyType el = hashKeyAttribute \<and> kse_AttributeName el = Some h)
         \<and> (\<forall>s. r = Some s \<longrightarrow>
               (\<exists>el\<in>set schema. kse_KeyType el = rangeKeyAttribute \<and> kse_AttributeName el = Some s)))"
proof (intro conjI impI allI)
  assume "list_ex otherRole schema"
  then have "\<exists>el\<in>set schema. otherRole el" by (simp add: list_ex_iff)
  from loop_other_role [OF this, of None None]
  show "\<exists>msg. getHashRangeKeys schema = Inl (Panic msg)"
    by (auto simp: getHashRangeKeys_def)
next
  assume nohash: "\<not> list_ex (\<lambda>el. kse_KeyType el = hashKeyAttribute) schema"
  show "\<exists>msg. getHashRangeKeys schema = Inl (Panic msg)"
  proof (cases "getHashRangeKeys_loop schema None None")
    case (Inl e)
    with loop_Inl [OF Inl] show ?thesis by (auto simp: getHashRangeKeys_def)
  next
    case (Inr hr)
    obtain h r where hr: "hr = (h, r)" by (cases hr)
    from loop_Inr [of schema None None h r] Inr hr nohash have "h = None"
      by (auto simp: list_ex_iff split: if_splits)
    with Inr hr show ?thesis by (simp add: getHashRangeKeys_def)
  qed
next
  assume wf: "wellFormedKeySchema schema"
  then have ok: "\<forall>el\<in>set schema. \<not> otherRole el"
    by (auto simp: wellFormedKeySchema_def otherRole_def list_all_iff)
  from loop_total [OF ok, of None None]
  obtain h r where l: "getHashRangeKeys_loop schema None None = Inr (h, r)" by blast
  from loop_Inr [OF l] wf obtain el where "el \<in> set schema" "kse_AttributeName el = h"
    by (auto simp: wellFormedKeySchema_def list_ex_iff split: if_splits)
  with wf obtain n where "h = Some n"
    by (auto simp: wellFormedKeySchema_def list_all_iff)
  with l show "\<exists>h r. getHashRangeKeys schema = Inr (h, r)"
    by (simp add: getHashRangeKeys_def)
next
  fix e assume "getHashRangeKeys schema = Inl e"
  then show "\<exists>msg. e = Panic msg"
    by (auto simp: getHashRangeKeys_def split: sum.splits option.splits dest: loop_Inl)
next
  fix h r assume a: "getHashRangeKeys schema = Inr (h, r)"
  then have l: "getHashRangeKeys_loop schema None None = Inr (Some h, r)"
    by (auto simp: getHashRangeKeys_def split: sum.splits option.splits)
  note L = loop_Inr [OF l]
  from L show "\<not> list_ex otherRole schema" by (simp add: list_ex_iff)
  from L show "\<exists>el\<in>set schema. kse_KeyType el = hashKeyAttribute \<and> kse_AttributeName el = Some h"
    by (auto split: if_splits)
  fix s assume "r = Some s"
  with L show "\<exists>el\<in>set schema. kse_KeyType el = rangeKeyAttribute \<and> kse_AttributeName el = Some s"
    by (auto split: if_splits)
qed

text \<open>
  The schema (id: HASH, ts: RANGE) is well formed and gives the keys id and ts; a schema
  with the role SORT, and one with a RANGE entry only, make the function panic.
\<close>

theorem getHashRangeKeys_invariant_witness:
  "wellFormedKeySchema keySchemaIdTs
   \<and> getHashRangeKeys keySchemaIdTs = Inr (''id'', Some ''ts'')
   \<and> list_ex otherRole [\<lparr> kse_AttributeName = Some ''id'', kse_KeyType = ''SORT'' \<rparr>]
   \<and> (\<exists>msg. getHashRangeKeys [\<lparr> kse_AttributeName = Some ''id'', kse_KeyType = ''SORT'' \<rparr>] = Inl (Panic msg))
   \<and> (\<exists>msg. getHashRangeKeys [\<lparr> kse_AttributeName = Some ''ts'', kse_KeyType = ''RANGE'' \<rparr>] = Inl (Panic msg))"
proof -
  have wf: "wellFormedKeySchema keySchemaIdTs"
    by (simp add: wellFormedKeySchema_def keySchemaIdTs_def hashKeyAttribute_def rangeKeyAttribute_def)
  have ev: "getHashRangeKeys keySchemaIdTs = Inr (''id'', Some ''ts'')"
    by (simp add: getHashRangeKeys_def keySchemaIdTs_def hashKeyAttribute_def rangeKeyAttribute_def)
  have bad: "list_ex otherRole [\<lparr> kse_AttributeName = Some ''id'', kse_KeyType = ''SORT'' \<rparr>]"
    by (simp add: otherRole_def hashKeyAttribute_def rangeKeyAttribute_def)
  have nohash: "\<not> list_ex (\<lambda>el. kse_KeyType el = hashKeyAttribute)
                   [\<lparr> kse_AttributeName = Some ''ts'', kse_KeyType = ''RANGE'' \<rparr>]"
    by (simp add: hashKeyAttribute_def)
  show ?thesis
    using wf ev bad nohash
      getHashRangeKeys_invariant [of "[\<lparr> kse_AttributeName = Some ''id'', kse_KeyType = ''SORT'' \<rparr>]"]
      getHashRangeKeys_invariant [of "[\<lparr> kse_AttributeName = Some ''ts'', kse_KeyType = ''RANGE'' \<rparr>]"]
      getHashRangeKeys_invariant [of keySchemaIdTs]
    by blast
qed

subsection \<open>The record of remote calls of the retry loops\<close>

lemma updateRequests_append: "updateRequests (xs @ ys) = updateRequests xs @ updateRequests ys"
  by (induction xs rule: updateRequests.induct) simp_all

lemma acceptedUpdates_append: "acceptedUpdates (xs @ ys) = acceptedUpdates xs @ acceptedUpdates ys"
  by (induction xs rule: acceptedUpdates.induct) simp_all

lemma deleteResponses_append: "deleteResponses (xs @ ys) = deleteResponses xs @ deleteResponses ys"
  by (induction xs rule: deleteResponses.induct) simp_all

lemma createRequests_append: "createRequests (xs @ ys) = createRequests xs @ createRequests ys"
  by (induction xs rule: createRequests.induct) simp_all

lemma pendingAfter_append: "pendingAfter b (xs @ ys) = pendingAfter (pendingAfter b xs) ys"
  by (induction b xs rule: pendingAfter.induct) simp_all

lemma sequenced_append:
  "sequenced b (xs @ ys) = (sequenced b xs \<and> sequenced (pendingAfter b xs) ys)"
  by (induction b xs rule: sequenced.induct) simp_all

lemma describes_no_requests:
  "list_all (isDescribe name) evs \<Longrightarrow>
     updateRequests evs = [] \<and> acceptedUpdates evs = [] \<and> deleteResponses evs = []
     \<and> createRequests evs = []"
  by (induction evs) (auto elim: isDescribe.elims)

lemma describes_sequenced: "list_all (isDescribe name) evs \<Longrightarrow> sequenced b evs"
  by (induction evs arbitrary: b) (auto elim: isDescribe.elims)

lemma describes_not_pending:
  "list_all (isDescribe name) evs \<Longrightarrow> \<not> b \<Longrightarrow> \<not> pendingAfter b evs"
  by (induction evs arbitrary: b) (auto elim: isDescribe.elims)

lemma waitForTableState_acceptor_cases:
  assumes "waitForTableState_acceptor p name exist w = ((done, err), evs, w')"
  shows "\<exists>resp. evs = [EvDescribeTable name resp] \<and> DescribeTable p name w = (resp, w')
           \<and> (done \<and> exist \<longrightarrow> reportsActive resp) \<and> (err \<noteq> None \<longrightarrow> \<not> done)"
  using assms
  by (auto simp: waitForTableState_acceptor_def callDescribeTable_def reportsActive_def
      split: prod.splits sum.splits if_splits)

lemma retry_wait:
  "retry n (waitForTableState_acceptor p name exist) w = ((succ, err), evs, w') \<Longrightarrow>
     list_all (isDescribe name) evs
     \<and> (err \<noteq> None \<longrightarrow> \<not> succ)
     \<and> (succ \<and> exist \<longrightarrow> \<not> pendingAfter b evs)"
proof (induction n arbitrary: w succ err evs w' b)
  case 0
  then show ?case by simp
next
  case (Suc n)
  obtain d e evs1 w1 where acc: "waitForTableState_acceptor p name exist w = ((d, e), evs1, w1)"
    by (metis prod.exhaust)
  from waitForTableState_acceptor_cases [OF acc] obtain resp where
    r: "evs1 = [EvDescribeTable name resp]" "d \<and> exist \<longrightarrow> reportsActive resp" "e \<noteq> None \<longrightarrow> \<not> d"
    by blast
  show ?case
  proof (cases e)
    case (Some x)
    with Suc.prems acc have "\<not> succ" "evs = evs1" by auto
    with r show ?thesis by simp
  next
    case None
    show ?thesis
    proof (cases d)
      case True
      with None Suc.prems acc have "succ" "err = None" "evs = evs1" by auto
      with r True show ?thesis by simp
    next
      case False
      obtain s2 e2 evs2 w2 where rec: "retry n (waitForTableState_acceptor p name exist) w1 = ((s2, e2), evs2, w2)"
        by (metis prod.exhaust)
      from False None Suc.prems acc rec have eq: "succ = s2" "err = e2" "evs = evs1 @ evs2" by auto
      from Suc.IH [OF rec] r eq show ?thesis by auto
    qed
  qed
qed

lemma waitForTableState_events:
  assumes "waitForTableState p name exist w = (res, evs, w')"
  shows "list_all (isDescribe name) evs \<and> (res = None \<and> exist \<longrightarrow> \<not> pendingAfter b evs)"
proof -
  obtain s e evs1 w1 where r: "retry (RetryTriesLong p) (waitForTableState_acceptor p name exist) w = ((s, e), evs1, w1)"
    by (metis prod.exhaust)
  from assms r have "evs = evs1" "res = None \<longrightarrow> s"
    by (auto simp: waitForTableState_def RetryUntilLong_def split: option.splits if_splits)
  with retry_wait [OF r, of b] show ?thesis by auto
qed

lemma updateTable_acceptor_cases:
  assumes "updateTable_acceptor p u w = ((done, err), evs, w')"
  shows "\<exists>r. evs = [EvUpdateTable u r] \<and> UpdateTable p u w = (r, w')
           \<and> (done \<longleftrightarrow> r = None) \<and> (err \<noteq> None \<longrightarrow> r = err)
           \<and> (err = None \<and> \<not> done \<longrightarrow> (\<exists>x. r = Some x \<and> IsAWSError x [''ResourceNotFoundException'', ''ResourceInUseException'']))"
  using assms
  by (auto simp: updateTable_acceptor_def callUpdateTable_def
      split: prod.splits option.splits if_splits)

lemma retry_update:
  "retry n (updateTable_acceptor p u) w = ((succ, err), evs, w') \<Longrightarrow>
     set (updateRequests evs) \<subseteq> {u}
     \<and> acceptedUpdates evs = (if succ then [u] else [])
     \<and> sequenced False evs
     \<and> pendingAfter False evs = succ
     \<and> (err \<noteq> None \<longrightarrow> \<not> succ)
     \<and> createRequests evs = [] \<and> deleteResponses evs = []"
proof (induction n arbitrary: w succ err evs w')
  case 0
  then show ?case by simp
next
  case (Suc n)
  obtain d e evs1 w1 where acc: "updateTable_acceptor p u w = ((d, e), evs1, w1)"
    by (metis prod.exhaust)
  from updateTable_acceptor_cases [OF acc] obtain r where
    r: "evs1 = [EvUpdateTable u r]" "d \<longleftrightarrow> r = None" "e \<noteq> None \<longrightarrow> r = e"
    by blast
  show ?case
  proof (cases e)
    case (Some x)
    with Suc.prems acc have "\<not> succ" "evs = evs1" by auto
    with r Some show ?thesis by simp
  next
    case None
    show ?thesis
    proof (cases d)
      case True
      with None Suc.prems acc have "succ" "err = None" "evs = evs1" by auto
      with r True show ?thesis by simp
    next
      case False
      obtain s2 e2 evs2 w2 where rec: "retry n (updateTable_acceptor p u) w1 = ((s2, e2), evs2, w2)"
        by (metis prod.exhaust)
      from False None Suc.prems acc rec have eq: "succ = s2" "err = e2" "evs = evs1 @ evs2" by auto
      from r False obtain x where x: "r = Some x" by (cases r) auto
      from Suc.IH [OF rec] r eq x show ?thesis by auto
    qed
  qed
qed

lemma follows_updateTable: "follows [u] (updateTable p name u w)"
proof -
  obtain s e evs1 w1 where r: "retry (RetryTries p) (updateTable_acceptor p u) w = ((s, e), evs1, w1)"
    by (metis prod.exhaust)
  note R = retry_update [OF r]
  show ?thesis
  proof (cases "e = None \<and> s")
    case False
    with r R show ?thesis
      by (auto simp: updateTable_def RetryUntil_def follows_def split: option.splits if_splits)
  next
    case True
    obtain res2 evs2 w2 where wt: "waitForTableState p name True w1 = (res2, evs2, w2)"
      by (metis prod.exhaust)
    note W = waitForTableState_events [OF wt, of True]
    from True r wt have "updateTable p name u w = (res2, evs1 @ evs2, w2)"
      by (simp add: updateTable_def RetryUntil_def)
    moreover from R W True describes_no_requests [of name evs2] describes_sequenced [of name evs2 True]
    have "follows [u] (res2, evs1 @ evs2, w2)"
      by (simp add: follows_def updateRequests_append acceptedUpdates_append sequenced_append
          pendingAfter_append createRequests_append deleteResponses_append)
    ultimately show ?thesis by simp
  qed
qed

lemma follows_wait: "follows [] (waitForTableState p name True w)"
proof -
  obtain res evs w' where wt: "waitForTableState p name True w = (res, evs, w')"
    by (metis prod.exhaust)
  from waitForTableState_events [OF wt, of False] describes_no_requests [of name evs]
    describes_sequenced [of name evs False] wt
  show ?thesis by (simp add: follows_def)
qed

lemma follows_skip: "follows [] (None, [], w)"
  by (simp add: follows_def)

lemma follows_andThen:
  assumes "\<And>w. follows plan1 (step w)" "\<And>w. follows plan2 (rest w)"
  shows "follows (plan1 @ plan2) (andThen step rest w)"
proof -
  obtain r1 evs1 w1 where s: "step w = (r1, evs1, w1)" by (metis prod.exhaust)
  from assms(1) [of w] s have F1: "follows plan1 (r1, evs1, w1)" by simp
  show ?thesis
  proof (cases r1)
    case (Some err)
    with s have "andThen step rest w = (Some err, evs1, w1)" by (simp add: andThen_def)
    with F1 Some show ?thesis by (auto simp: follows_def)
  next
    case None
    obtain r2 evs2 w2 where t: "rest w1 = (r2, evs2, w2)" by (metis prod.exhaust)
    from assms(2) [of w1] t have F2: "follows plan2 (r2, evs2, w2)" by simp
    from None s t have "andThen step rest w = (r2, evs1 @ evs2, w2)" by (simp add: andThen_def)
    with F1 F2 None show ?thesis
      by (auto simp: follows_def updateRequests_append acceptedUpdates_append sequenced_append
          pendingAfter_append createRequests_append deleteResponses_append)
  qed
qed

lemma follows_forEach:
  assumes "\<And>x w. follows [f x] (body x w)"
  shows "follows (map f xs) (forEach body xs w)"
proof (induction xs arbitrary: w)
  case Nil
  show ?case by (simp add: follows_skip)
next
  case (Cons x xs)
  have "follows ([f x] @ map f xs) (andThen (body x) (forEach body xs) w)"
    by (rule follows_andThen) (rule assms, rule Cons.IH)
  then show ?case by simp
qed

lemma Update_follows_plan:
  assumes "ParseResourceName p ident = Inr name"
  shows "follows (updatePlan name old new diff) (Update p ident old new diff w)"
proof -
  let ?d = "Diff (newGlobalSecondaryIndexHashSet (tab_GlobalSecondaryIndexes old))
                 (newGlobalSecondaryIndexHashSet (tab_GlobalSecondaryIndexes new))"
  let ?first = "if Changed diff Table_ReadCapacity \<or> Changed diff Table_WriteCapacity
             then updateTable p name (throughputUpdate name new)
             else (\<lambda>w. (None, [], w))"
  let ?p1 = "if Changed diff Table_ReadCapacity \<or> Changed diff Table_WriteCapacity
      then [throughputUpdate name new] else []"
  let ?idx = "andThen
                (forEach (\<lambda>h. updateTable p name (createIndexUpdate name new h)) (Adds ?d))
                (andThen
                   (forEach (\<lambda>h. updateTable p name (updateIndexUpdate name h)) (Updates ?d))
                   (andThen
                      (forEach (\<lambda>h. updateTable p name (deleteIndexUpdate name h)) (Deletes ?d))
                      (waitForTableState p name True)))"
  let ?pidx = "map (createIndexUpdate name new) (Adds ?d)
                 @ map (updateIndexUpdate name) (Updates ?d)
                 @ map (deleteIndexUpdate name) (Deletes ?d)"
  have first: "\<And>w. follows ?p1 (?first w)"
    by (simp add: follows_updateTable follows_skip)
  have "\<And>w. follows (map (createIndexUpdate name new) (Adds ?d)
                 @ (map (updateIndexUpdate name) (Updates ?d)
                 @ (map (deleteIndexUpdate name) (Deletes ?d) @ []))) (?idx w)"
    by (intro follows_andThen follows_forEach follows_updateTable follows_wait)
  then have idx: "\<And>w. follows ?pidx (?idx w)" by simp
  let ?second = "if Changed diff Table_GlobalSecondaryIndexes then ?idx else (\<lambda>w. (None, [], w))"
  let ?p2 = "if Changed diff Table_GlobalSecondaryIndexes then ?pidx else []"
  have second: "\<And>w. follows ?p2 (?second w)"
    using idx by (simp add: follows_skip)
  have "follows (?p1 @ ?p2) (andThen ?first ?second w)"
    by (rule follows_andThen [OF first second])
  moreover have "Update p ident old new diff w = andThen ?first ?second w"
    using assms by (simp add: Update_def Let_def)
  moreover have "updatePlan name old new diff = ?p1 @ ?p2"
    by (simp add: updatePlan_def Let_def)
  ultimately show ?thesis by simp
qed

subsection \<open>Update\<close>

text \<open>The definitions that a concrete run on a scripted service unfolds.\<close>

lemmas run_defs = Update_def andThen_def updateTable_def RetryUntil_def RetryUntilLong_def
  waitForTableState_def waitForTableState_acceptor_def updateTable_acceptor_def
  callUpdateTable_def callDescribeTable_def callCreateTable_def callDeleteTable_def
  scripted_def parseNonEmpty_def IsAWSError_def Changed_def
  Table_ReadCapacity_def Table_WriteCapacity_def Table_GlobalSecondaryIndexes_def
  StringValue_def activeTable_def resourceInUse_def notFound_def eval_nat_numeral

text \<open>
  How \<open>updateTable\<close> and the loops of \<open>Update\<close> carry out a plan: the shape of the calls of
  a retry loop, and its composition along \<open>andThen\<close> and \<open>forEach\<close>.
\<close>

lemma reissued_Cons_ok: "\<not> rejected ev \<Longrightarrow> reissued (ev # evs) = reissued evs"
  by (cases "ev # evs" rule: reissued.cases) auto

lemma reissued_append:
  "reissued xs \<Longrightarrow> reissued ys \<Longrightarrow> xs = [] \<or> \<not> rejected (last xs) \<Longrightarrow> reissued (xs @ ys)"
  by (induction xs rule: reissued.induct) (auto simp: reissued_Cons_ok split: if_splits)

lemma describes_reissued: "list_all (isDescribe name) evs \<Longrightarrow> reissued evs"
proof (induction evs)
  case Nil
  show ?case by simp
next
  case (Cons ev evs)
  then obtain resp where "ev = EvDescribeTable name resp"
    by (cases ev) auto
  with Cons show ?case by (cases evs) auto
qed

lemma describes_last:
  "list_all (isDescribe name) evs \<Longrightarrow> evs \<noteq> [] \<Longrightarrow> isDescribe name (last evs)"
  by (induction evs) (auto split: if_splits)

lemma isDescribe_not_request: "isDescribe name ev \<Longrightarrow> \<not> rejected ev \<and> \<not> requestOf u ev"
  by (cases ev) auto

lemma updateTable_acceptor_result:
  assumes "updateTable_acceptor p u w = ((done, err), evs, w')"
  shows "evs = [EvUpdateTable u (fst (UpdateTable p u w))]"
    and "done \<longleftrightarrow> fst (UpdateTable p u w) = None"
    and "done \<longrightarrow> err = None"
    and "err \<noteq> None \<longrightarrow> fst (UpdateTable p u w) = err \<and> (\<exists>x. err = Some x \<and> \<not> transient x)"
    and "\<not> done \<and> err = None \<longrightarrow> (\<exists>x. fst (UpdateTable p u w) = Some x \<and> transient x)"
  using assms
  by (auto simp: updateTable_acceptor_def callUpdateTable_def transient_def
      split: prod.splits option.splits if_splits)

lemma retry_update_shape:
  "retry n (updateTable_acceptor p u) w = ((succ, err), evs, w') \<Longrightarrow>
     list_all (requestOf u) evs
     \<and> reissued evs
     \<and> length evs \<le> n
     \<and> (succ \<longrightarrow> err = None \<and> evs \<noteq> [] \<and> last evs = EvUpdateTable u None)
     \<and> (err \<noteq> None \<longrightarrow> \<not> succ \<and> evs \<noteq> []
           \<and> (\<exists>x. err = Some x \<and> last evs = EvUpdateTable u (Some x) \<and> \<not> transient x))
     \<and> (\<not> succ \<and> err = None \<longrightarrow> length evs = n
           \<and> (\<forall>ev\<in>set evs. \<exists>x. ev = EvUpdateTable u (Some x) \<and> transient x))"
proof (induction n arbitrary: w succ err evs w')
  case 0
  then show ?case by simp
next
  case (Suc n)
  obtain d e evs1 w1 where acc: "updateTable_acceptor p u w = ((d, e), evs1, w1)"
    by (metis prod.exhaust)
  define r where "r = fst (UpdateTable p u w)"
  have r: "evs1 = [EvUpdateTable u r]" "d \<longleftrightarrow> r = None" "d \<longrightarrow> e = None"
    "e \<noteq> None \<longrightarrow> r = e \<and> (\<exists>x. e = Some x \<and> \<not> transient x)"
    "\<not> d \<and> e = None \<longrightarrow> (\<exists>x. r = Some x \<and> transient x)"
    unfolding r_def by (rule updateTable_acceptor_result [OF acc])+
  show ?case
  proof (cases e)
    case (Some x)
    with Suc.prems acc have fin: "succ = False" "err = Some x" "evs = evs1" by auto
    have rx: "r = Some x" "\<not> transient x" using r(4) Some by auto
    have ev: "evs = [EvUpdateTable u (Some x)]" using fin(3) r(1) rx(1) by simp
    show ?thesis unfolding ev fin(1,2) using rx(2) by simp
  next
    case None
    show ?thesis
    proof (cases d)
      case True
      with None Suc.prems acc have fin: "succ = True" "err = None" "evs = evs1" by auto
      have rx: "r = None" using r(2) True by blast
      have ev: "evs = [EvUpdateTable u None]" using fin(3) r(1) rx by simp
      show ?thesis unfolding ev fin(1,2) by simp
    next
      case False
      obtain s2 e2 evs2 w2 where rec: "retry n (updateTable_acceptor p u) w1 = ((s2, e2), evs2, w2)"
        by (metis prod.exhaust)
      from False None Suc.prems acc rec have eq: "succ = s2" "err = e2" "evs = evs1 @ evs2"
        by auto
      from r(5) False None obtain x where x: "r = Some x" "transient x" by blast
      have ev: "evs = EvUpdateTable u (Some x) # evs2" using eq(3) r(1) x(1) by simp
      note IH = Suc.IH [OF rec]
      note i1 = IH [THEN conjunct1]
      note i2 = IH [THEN conjunct2, THEN conjunct1]
      note i3 = IH [THEN conjunct2, THEN conjunct2, THEN conjunct1]
      note i4 = IH [THEN conjunct2, THEN conjunct2, THEN conjunct2, THEN conjunct1]
      note i5 = IH [THEN conjunct2, THEN conjunct2, THEN conjunct2, THEN conjunct2, THEN conjunct1]
      note i6 = IH [THEN conjunct2, THEN conjunct2, THEN conjunct2, THEN conjunct2, THEN conjunct2]
      have g1: "list_all (requestOf u) (EvUpdateTable u (Some x) # evs2)" using i1 by simp
      have g2: "reissued (EvUpdateTable u (Some x) # evs2)"
        using i1 i2 x(2) by (cases evs2) simp_all
      have g3: "length (EvUpdateTable u (Some x) # evs2) \<le> Suc n" using i3 by simp
      have g4: "s2 \<longrightarrow> e2 = None \<and> EvUpdateTable u (Some x) # evs2 \<noteq> []
           \<and> last (EvUpdateTable u (Some x) # evs2) = EvUpdateTable u None"
        using i4 by auto
      have g5: "e2 \<noteq> None \<longrightarrow> \<not> s2 \<and> EvUpdateTable u (Some x) # evs2 \<noteq> []
           \<and> (\<exists>y. e2 = Some y \<and> last (EvUpdateTable u (Some x) # evs2) = EvUpdateTable u (Some y)
                 \<and> \<not> transient y)"
        using i5 by auto
      have g6: "\<not> s2 \<and> e2 = None \<longrightarrow> length (EvUpdateTable u (Some x) # evs2) = Suc n
           \<and> (\<forall>ev\<in>set (EvUpdateTable u (Some x) # evs2). \<exists>y. ev = EvUpdateTable u (Some y) \<and> transient y)"
        using i6 x(2) by simp
      from g1 g2 g3 g4 g5 g6 show ?thesis
        unfolding ev eq(1,2) by (intro conjI)
    qed
  qed
qed

lemma waitForTableState_acceptor_more:
  assumes "waitForTableState_acceptor p name True w = ((done, err), evs, w')"
  shows "\<exists>resp. evs = [EvDescribeTable name resp] \<and> (done \<longleftrightarrow> reportsActive resp)"
  using assms
  by (auto simp: waitForTableState_acceptor_def callDescribeTable_def reportsActive_def
      split: prod.splits sum.splits if_splits)

lemma retry_wait_fail:
  "retry n (waitForTableState_acceptor p name True) w = ((succ, err), evs, w') \<Longrightarrow>
     (succ \<longrightarrow> evs \<noteq> []) \<and> (\<not> succ \<longrightarrow> pendingAfter True evs)"
proof (induction n arbitrary: w succ err evs w')
  case 0
  then show ?case by simp
next
  case (Suc n)
  obtain d e evs1 w1 where acc: "waitForTableState_acceptor p name True w = ((d, e), evs1, w1)"
    by (metis prod.exhaust)
  from waitForTableState_acceptor_more [OF acc] obtain resp where
    r: "evs1 = [EvDescribeTable name resp]" "d \<longleftrightarrow> reportsActive resp"
    by blast
  show ?case
  proof (cases e)
    case (Some x)
    with Suc.prems acc have fin: "succ = False" "evs = evs1" by auto
    from waitForTableState_acceptor_cases [OF acc] Some have "\<not> d" by auto
    with r fin show ?thesis by simp
  next
    case None
    show ?thesis
    proof (cases d)
      case True
      with None Suc.prems acc have "succ = True" "evs = evs1" by auto
      with r show ?thesis by simp
    next
      case False
      obtain s2 e2 evs2 w2 where rec: "retry n (waitForTableState_acceptor p name True) w1 = ((s2, e2), evs2, w2)"
        by (metis prod.exhaust)
      from False None Suc.prems acc rec have eq: "succ = s2" "evs = evs1 @ evs2" by auto
      have ev: "evs = EvDescribeTable name resp # evs2" using eq(2) r(1) by simp
      from Suc.IH [OF rec] False r(2) show ?thesis unfolding ev eq(1) by simp
    qed
  qed
qed

lemma waitForTableState_fail:
  assumes "waitForTableState p name True w = (res, evs, w')"
  shows "(res = None \<longrightarrow> evs \<noteq> []) \<and> (res \<noteq> None \<longrightarrow> pendingAfter True evs)"
proof -
  obtain s e evs1 w1 where r: "retry (RetryTriesLong p) (waitForTableState_acceptor p name True) w = ((s, e), evs1, w1)"
    by (metis prod.exhaust)
  from retry_wait [OF r, of False] have es: "e \<noteq> None \<longrightarrow> \<not> s" by simp
  from assms r have "evs = evs1" "res = None \<longleftrightarrow> s \<and> e = None"
    by (auto simp: waitForTableState_def RetryUntilLong_def split: option.splits if_splits)
  with retry_wait_fail [OF r] es show ?thesis by auto
qed

lemma takeWhile_append_stop:
  "ys = [] \<or> \<not> P (hd ys) \<Longrightarrow> length (takeWhile P (xs @ ys)) = length (takeWhile P xs)"
  by (induction xs) (auto simp: takeWhile_eq_Nil_iff hd_conv_nth split: list.splits)

lemma carriesOut_skip: "carriesOut p name [] (None, [], w)"
  by (simp add: carriesOut_def follows_skip)

lemma carriesOut_updateTable:
  assumes tries: "0 < RetryTries p"
  shows "carriesOut p name [u] (updateTable p name u w)"
proof -
  obtain s e evs1 w1 where
    r: "retry (RetryTries p) (updateTable_acceptor p u) w = ((s, e), evs1, w1)"
    by (metis prod.exhaust)
  note R = retry_update_shape [OF r]
  note r1 = R [THEN conjunct1]
  note r2 = R [THEN conjunct2, THEN conjunct1]
  note r4 = R [THEN conjunct2, THEN conjunct2, THEN conjunct2, THEN conjunct1]
  note r5 = R [THEN conjunct2, THEN conjunct2, THEN conjunct2, THEN conjunct2, THEN conjunct1]
  note r6 = R [THEN conjunct2, THEN conjunct2, THEN conjunct2, THEN conjunct2, THEN conjunct2]
  from retry_update [OF r] have acc: "acceptedUpdates evs1 = (if s then [u] else [])"
    and pend: "pendingAfter False evs1 = s" by simp_all
  note F = follows_updateTable [of u p name w]
  obtain res2 evs2 w2 where wt: "waitForTableState p name True w1 = (res2, evs2, w2)"
    by (metis prod.exhaust)
  show ?thesis
  proof (cases "e = None \<and> s")
    case False
    define res where "res = (if e = None then Some (couldNotBeUpdated name) else e)"
    have ut: "updateTable p name u w = (res, evs1, w1)"
      using r False by (auto simp: updateTable_def RetryUntil_def res_def split: option.splits)
    have ns: "\<not> s" using False r5 by blast
    have resne: "res \<noteq> None" using False by (auto simp: res_def)
    have last_rej: "evs1 \<noteq> [] \<and> (\<exists>x. last evs1 = EvUpdateTable u (Some x)
         \<and> (if transient x then e = None \<and> length evs1 = RetryTries p else e = Some x))"
    proof (cases e)
      case None
      with ns r6 have l: "length evs1 = RetryTries p"
        and all: "\<forall>ev\<in>set evs1. \<exists>x. ev = EvUpdateTable u (Some x) \<and> transient x" by simp_all
      from l tries have ne: "evs1 \<noteq> []" by auto
      then have "last evs1 \<in> set evs1" by simp
      with all obtain x where "last evs1 = EvUpdateTable u (Some x)" "transient x" by blast
      with ne None l show ?thesis by auto
    next
      case (Some y)
      with r5 have "evs1 \<noteq> []" "last evs1 = EvUpdateTable u (Some y)" "\<not> transient y" by auto
      with Some show ?thesis by auto
    qed
    then obtain x where lx: "evs1 \<noteq> []" "last evs1 = EvUpdateTable u (Some x)"
      "if transient x then e = None \<and> length evs1 = RetryTries p else e = Some x" by blast
    have "takeWhile (requestOf u) (rev evs1) = rev evs1"
      using r1 by (simp add: takeWhile_eq_all_conv list_all_iff)
    then have tw: "length (takeWhile (requestOf u) (rev evs1)) = length evs1"
      by (simp only: length_rev)
    have c2: "res = None \<longrightarrow> evs1 = [] \<or> isDescribe name (last evs1)"
      using resne by blast
    have c3: "res \<noteq> None \<longrightarrow> pendingAfter False evs1
                \<or> (evs1 \<noteq> [] \<and> rejected (last evs1)
                    \<and> length (acceptedUpdates evs1) < length [u]
                    \<and> requestOf ([u] ! length (acceptedUpdates evs1)) (last evs1))"
      using lx(1,2) acc ns by simp
    have c4: "\<forall>u' x'. evs1 \<noteq> [] \<and> last evs1 = EvUpdateTable u' (Some x') \<longrightarrow>
                (if transient x'
                 then res = Some (couldNotBeUpdated name)
                      \<and> length (takeWhile (requestOf u') (rev evs1)) = RetryTries p
                 else res = Some x')"
    proof (intro allI impI)
      fix u' x' assume "evs1 \<noteq> [] \<and> last evs1 = EvUpdateTable u' (Some x')"
      with lx(2) have same: "u' = u" "x' = x" by simp_all
      show "if transient x'
                 then res = Some (couldNotBeUpdated name)
                      \<and> length (takeWhile (requestOf u') (rev evs1)) = RetryTries p
                 else res = Some x'"
        unfolding same tw using lx(3) by (auto simp: res_def)
    qed
    from F [unfolded ut] r2 c2 c3 c4 show ?thesis
      unfolding ut carriesOut_def prod.case by (intro conjI)
  next
    case True
    have ut: "updateTable p name u w = (res2, evs1 @ evs2, w2)"
      using r True wt by (simp add: updateTable_def RetryUntil_def)
    from True r4 have l1: "evs1 \<noteq> []" "last evs1 = EvUpdateTable u None" by simp_all
    note W = waitForTableState_events [OF wt, of True]
    from W have d2: "list_all (isDescribe name) evs2" by simp
    note WF = waitForTableState_fail [OF wt]
    have c1: "reissued (evs1 @ evs2)"
      using r2 describes_reissued [OF d2] l1 by (intro reissued_append) simp_all
    have lastd: "isDescribe name (last (evs1 @ evs2))" if "evs2 \<noteq> []"
      using that describes_last [OF d2] by simp
    have c2: "res2 = None \<longrightarrow> evs1 @ evs2 = [] \<or> isDescribe name (last (evs1 @ evs2))"
      using WF lastd by blast
    have "res2 \<noteq> None \<longrightarrow> pendingAfter False (evs1 @ evs2)"
      using WF pend True by (simp add: pendingAfter_append)
    then have c3: "res2 \<noteq> None \<longrightarrow> pendingAfter False (evs1 @ evs2)
                \<or> (evs1 @ evs2 \<noteq> [] \<and> rejected (last (evs1 @ evs2))
                    \<and> length (acceptedUpdates (evs1 @ evs2)) < length [u]
                    \<and> requestOf ([u] ! length (acceptedUpdates (evs1 @ evs2)))
                         (last (evs1 @ evs2)))"
      by blast
    have n4: "\<not> (evs1 @ evs2 \<noteq> [] \<and> last (evs1 @ evs2) = EvUpdateTable u' (Some x'))" for u' x'
    proof (cases "evs2 = []")
      case True
      with l1 show ?thesis by simp
    next
      case False
      from lastd [OF False] show ?thesis by (auto simp del: last_appendR)
    qed
    have c4: "\<forall>u' x'. evs1 @ evs2 \<noteq> [] \<and> last (evs1 @ evs2) = EvUpdateTable u' (Some x') \<longrightarrow>
                (if transient x'
                 then res2 = Some (couldNotBeUpdated name)
                      \<and> length (takeWhile (requestOf u') (rev (evs1 @ evs2))) = RetryTries p
                 else res2 = Some x')"
      using n4 by blast
    from F [unfolded ut] c1 c2 c3 c4 show ?thesis
      unfolding ut carriesOut_def prod.case by (intro conjI)
  qed
qed

lemma carriesOut_andThen:
  assumes A: "\<And>w. carriesOut p name plan1 (step w)"
    and B: "\<And>w. carriesOut p name plan2 (rest w)"
  shows "carriesOut p name (plan1 @ plan2) (andThen step rest w)"
proof -
  have FA: "\<And>w. follows plan1 (step w)" using A by (auto simp: carriesOut_def)
  have FB: "\<And>w. follows plan2 (rest w)" using B by (auto simp: carriesOut_def)
  note F = follows_andThen [of plan1 step plan2 rest w, OF FA FB]
  obtain r1 evs1 w1 where s: "step w = (r1, evs1, w1)" by (metis prod.exhaust)
  note A1 = A [of w, unfolded s carriesOut_def prod.case]
  note a2 = A1 [THEN conjunct2, THEN conjunct1]
  note a3 = A1 [THEN conjunct2, THEN conjunct2, THEN conjunct1]
  note a4 = A1 [THEN conjunct2, THEN conjunct2, THEN conjunct2, THEN conjunct1]
  note a5 = A1 [THEN conjunct2, THEN conjunct2, THEN conjunct2, THEN conjunct2]
  show ?thesis
  proof (cases r1)
    case (Some err)
    have at: "andThen step rest w = (Some err, evs1, w1)"
      using s Some by (simp add: andThen_def)
    have c2: "Some err = None \<longrightarrow> evs1 = [] \<or> isDescribe name (last evs1)" by simp
    have c3: "Some err \<noteq> None \<longrightarrow> pendingAfter False evs1
                \<or> (evs1 \<noteq> [] \<and> rejected (last evs1)
                    \<and> length (acceptedUpdates evs1) < length (plan1 @ plan2)
                    \<and> requestOf ((plan1 @ plan2) ! length (acceptedUpdates evs1)) (last evs1))"
      using a4 Some by (auto simp: nth_append)
    from F [unfolded at] a2 c2 c3 a5 [unfolded Some] show ?thesis
      unfolding at carriesOut_def prod.case by (intro conjI)
  next
    case None
    obtain r2 evs2 w2 where t: "rest w1 = (r2, evs2, w2)" by (metis prod.exhaust)
    note B1 = B [of w1, unfolded t carriesOut_def prod.case]
    note b2 = B1 [THEN conjunct2, THEN conjunct1]
    note b3 = B1 [THEN conjunct2, THEN conjunct2, THEN conjunct1]
    note b4 = B1 [THEN conjunct2, THEN conjunct2, THEN conjunct2, THEN conjunct1]
    note b5 = B1 [THEN conjunct2, THEN conjunct2, THEN conjunct2, THEN conjunct2]
    have at: "andThen step rest w = (r2, evs1 @ evs2, w2)"
      using s t None by (simp add: andThen_def)
    from FA [of w] s None have acc1: "acceptedUpdates evs1 = plan1"
      and np: "\<not> pendingAfter False evs1" by (simp_all add: follows_def)
    from a3 None have e1: "evs1 = [] \<or> isDescribe name (last evs1)" by simp
    then have e1': "evs1 = [] \<or> \<not> rejected (last evs1)"
      using isDescribe_not_request by blast
    have c1: "reissued (evs1 @ evs2)" using a2 b2 e1' by (rule reissued_append)
    have c2: "r2 = None \<longrightarrow> evs1 @ evs2 = [] \<or> isDescribe name (last (evs1 @ evs2))"
      using b3 e1 by (cases "evs2 = []") auto
    have c3: "r2 \<noteq> None \<longrightarrow>
                pendingAfter False (evs1 @ evs2)
                \<or> (evs1 @ evs2 \<noteq> [] \<and> rejected (last (evs1 @ evs2))
                    \<and> length (acceptedUpdates (evs1 @ evs2)) < length (plan1 @ plan2)
                    \<and> requestOf ((plan1 @ plan2) ! length (acceptedUpdates (evs1 @ evs2)))
                         (last (evs1 @ evs2)))"
      using b4 np acc1 by (auto simp: pendingAfter_append acceptedUpdates_append nth_append)
    have c4: "if transient x
                 then r2 = Some (couldNotBeUpdated name)
                      \<and> length (takeWhile (requestOf u) (rev (evs1 @ evs2))) = RetryTries p
                 else r2 = Some x"
      if h: "evs1 @ evs2 \<noteq> [] \<and> last (evs1 @ evs2) = EvUpdateTable u (Some x)" for u x
    proof -
      have ne2: "evs2 \<noteq> []"
      proof
        assume "evs2 = []"
        with h have "evs1 \<noteq> []" "last evs1 = EvUpdateTable u (Some x)" by simp_all
        with e1 show False by auto
      qed
      with h have l2: "last evs2 = EvUpdateTable u (Some x)" by simp
      have stop: "rev evs1 = [] \<or> \<not> requestOf u (hd (rev evs1))"
        using e1 isDescribe_not_request [of name "last evs1" u] by (auto simp: hd_rev)
      have "length (takeWhile (requestOf u) (rev (evs1 @ evs2)))
            = length (takeWhile (requestOf u) (rev evs2))"
        using takeWhile_append_stop [of "rev evs1" "requestOf u" "rev evs2"] stop by simp
      with b5 ne2 l2 show ?thesis by auto
    qed
    have c4': "\<forall>u x. evs1 @ evs2 \<noteq> [] \<and> last (evs1 @ evs2) = EvUpdateTable u (Some x) \<longrightarrow>
                (if transient x
                 then r2 = Some (couldNotBeUpdated name)
                      \<and> length (takeWhile (requestOf u) (rev (evs1 @ evs2))) = RetryTries p
                 else r2 = Some x)"
      by (intro allI impI) (rule c4)
    from F [unfolded at] c1 c2 c3 c4' show ?thesis
      unfolding at carriesOut_def prod.case by (intro conjI)
  qed
qed

lemma carriesOut_forEach:
  assumes "\<And>x w. carriesOut p name [f x] (body x w)"
  shows "carriesOut p name (map f xs) (forEach body xs w)"
proof (induction xs arbitrary: w)
  case Nil
  show ?case by (simp add: carriesOut_skip)
next
  case (Cons x xs)
  have "carriesOut p name ([f x] @ map f xs) (andThen (body x) (forEach body xs) w)"
    by (rule carriesOut_andThen) (rule assms, rule Cons.IH)
  then show ?case by simp
qed

lemma carriesOut_steps:
  assumes "0 < RetryTries p"
  shows "carriesOut p name plan (forEach (updateTable p name) plan w)"
  using carriesOut_forEach [of p name "\<lambda>u. u" "updateTable p name" plan w]
    carriesOut_updateTable [OF assms]
  by simp

lemma andThen_skip_left: "andThen (\<lambda>w. (None, [], w)) m = m"
  by (rule ext) (simp add: andThen_def split: prod.splits)

lemma andThen_skip_right: "andThen m (\<lambda>w. (None, [], w)) = m"
  by (rule ext) (simp add: andThen_def split: prod.splits option.splits)

lemma andThen_assoc: "andThen (andThen a b) c = andThen a (andThen b c)"
  by (rule ext) (simp add: andThen_def split: prod.splits option.splits)

lemma forEach_append: "forEach body (xs @ ys) = andThen (forEach body xs) (forEach body ys)"
  by (induction xs) (simp_all add: andThen_skip_left andThen_assoc)

lemma forEach_map: "forEach body (map g xs) = forEach (\<lambda>x. body (g x)) xs"
  by (induction xs) simp_all

lemma Update_runs_plan:
  assumes "ParseResourceName p ident = Inr name"
  shows "Update p ident old new diff w
     = andThen (forEach (updateTable p name) (updatePlan name old new diff))
         (if Changed diff Table_GlobalSecondaryIndexes then waitForTableState p name True
          else (\<lambda>w. (None, [], w))) w"
  using assms
  by (simp add: Update_def updatePlan_def Let_def forEach_append forEach_map andThen_skip_left
      andThen_skip_right andThen_assoc)

lemma andThen_events:
  "\<exists>more. fst (snd (andThen step rest w)) = fst (snd (step w)) @ more"
  by (auto simp: andThen_def split: prod.splits option.splits)

lemma updateTable_first_event:
  assumes "0 < RetryTries p"
  shows "\<exists>more. fst (snd (updateTable p name u w)) = EvUpdateTable u (fst (UpdateTable p u w)) # more"
proof -
  obtain n where n: "RetryTries p = Suc n" using assms by (cases "RetryTries p") auto
  obtain d e evs1 w1 where acc: "updateTable_acceptor p u w = ((d, e), evs1, w1)"
    by (metis prod.exhaust)
  note ev = updateTable_acceptor_result(1) [OF acc]
  obtain s2 e2 evs2 w2 where rec: "retry n (updateTable_acceptor p u) w1 = ((s2, e2), evs2, w2)"
    by (metis prod.exhaust)
  have "\<exists>more. fst (snd (retry (Suc n) (updateTable_acceptor p u) w)) = evs1 @ more"
    using acc rec by (auto split: option.splits)
  then obtain more where m: "fst (snd (retry (Suc n) (updateTable_acceptor p u) w)) = evs1 @ more"
    by blast
  have "\<exists>more'. fst (snd (updateTable p name u w))
           = fst (snd (retry (Suc n) (updateTable_acceptor p u) w)) @ more'"
    by (auto simp: updateTable_def RetryUntil_def n split: prod.splits option.splits)
  with m ev show ?thesis by auto
qed

lemma plan_single_change:
  assumes "u \<in> set (updatePlan name old new diff)"
  shows "length (uti_GlobalSecondaryIndexUpdates u)
           + (if uti_ProvisionedThroughput u = None then 0 else 1) = 1"
  using assms
  by (auto simp: updatePlan_def Let_def throughputUpdate_def createIndexUpdate_def
      updateIndexUpdate_def deleteIndexUpdate_def split: if_splits)

lemma Update_progress:
  assumes parse: "ParseResourceName p ident = Inr name"
    and run: "Update p ident old new diff w = (res, evs, w')"
    and tries: "0 < RetryTries p"
  shows "reissued evs
     \<and> (updatePlan name old new diff \<noteq> [] \<longrightarrow>
           evs \<noteq> []
           \<and> hd evs = EvUpdateTable (hd (updatePlan name old new diff))
                        (fst (UpdateTable p (hd (updatePlan name old new diff)) w)))
     \<and> (res \<noteq> None \<longrightarrow>
           acceptedUpdates evs = updatePlan name old new diff
           \<or> pendingAfter False evs
           \<or> (evs \<noteq> [] \<and> rejected (last evs)
               \<and> length (acceptedUpdates evs) < length (updatePlan name old new diff)
               \<and> requestOf (updatePlan name old new diff ! length (acceptedUpdates evs)) (last evs)))
     \<and> (\<forall>u x. evs \<noteq> [] \<and> last evs = EvUpdateTable u (Some x) \<longrightarrow>
           (if transient x
            then res = Some (couldNotBeUpdated name)
                 \<and> length (takeWhile (requestOf u) (rev evs)) = RetryTries p
            else res = Some x))"
proof -
  let ?plan = "updatePlan name old new diff"
  let ?steps = "forEach (updateTable p name) ?plan"
  let ?final = "if Changed diff Table_GlobalSecondaryIndexes then waitForTableState p name True
          else (\<lambda>w. (None, [], w))"
  note eq = Update_runs_plan [OF parse, of old new diff w]
  obtain r1 evs1 w1 where s: "?steps w = (r1, evs1, w1)" by (metis prod.exhaust)
  note C = carriesOut_steps [OF tries, of name ?plan w, unfolded s carriesOut_def prod.case]
  note c1 = C [THEN conjunct1]
  note c2 = C [THEN conjunct2, THEN conjunct1]
  note c3 = C [THEN conjunct2, THEN conjunct2, THEN conjunct1]
  note c4 = C [THEN conjunct2, THEN conjunct2, THEN conjunct2, THEN conjunct1]
  note c5 = C [THEN conjunct2, THEN conjunct2, THEN conjunct2, THEN conjunct2]
  have first: "evs \<noteq> [] \<and> hd evs = EvUpdateTable (hd ?plan) (fst (UpdateTable p (hd ?plan) w))"
    if ne: "?plan \<noteq> []"
  proof -
    from ne obtain u us where pl: "?plan = u # us" by (cases ?plan) auto
    have "andThen ?steps ?final w = (res, evs, w')" using eq run by simp
    then have ev_eq: "fst (snd (andThen ?steps ?final w)) = evs" by simp
    from andThen_events [of ?steps ?final w, unfolded ev_eq]
    obtain m1 where m1: "evs = fst (snd (?steps w)) @ m1" by blast
    from andThen_events [of "updateTable p name u" "forEach (updateTable p name) us" w]
    obtain m2 where m2: "fst (snd (?steps w)) = fst (snd (updateTable p name u w)) @ m2"
      unfolding pl by auto
    from updateTable_first_event [OF tries, of name u w]
    obtain m3 where m3: "fst (snd (updateTable p name u w))
        = EvUpdateTable u (fst (UpdateTable p u w)) # m3" by blast
    have "evs = EvUpdateTable u (fst (UpdateTable p u w)) # (m3 @ m2 @ m1)"
      unfolding m1 m2 m3 by simp
    then show ?thesis unfolding pl by simp
  qed
  show ?thesis
  proof (cases r1)
    case (Some err)
    have "Update p ident old new diff w = (Some err, evs1, w1)"
      unfolding eq using s Some by (simp add: andThen_def)
    with run have fin: "res = Some err" "evs = evs1" by simp_all
    from c2 c4 [unfolded Some] c5 [unfolded Some] first show ?thesis
      unfolding fin by blast
  next
    case None
    obtain r2 evs2 w2 where t: "?final w1 = (r2, evs2, w2)" by (metis prod.exhaust)
    have "Update p ident old new diff w = (r2, evs1 @ evs2, w2)"
      unfolding eq using s t None by (simp add: andThen_def)
    with run have fin: "res = r2" "evs = evs1 @ evs2" by simp_all
    have d2: "list_all (isDescribe name) evs2"
    proof (cases "Changed diff Table_GlobalSecondaryIndexes")
      case True
      with t have "waitForTableState p name True w1 = (r2, evs2, w2)" by simp
      from waitForTableState_events [OF this, of False] show ?thesis by simp
    next
      case False
      with t show ?thesis by simp
    qed
    from c1 None have acc1: "acceptedUpdates evs1 = ?plan" by (simp add: follows_def)
    from c3 None have e1: "evs1 = [] \<or> isDescribe name (last evs1)" by simp
    then have e1': "evs1 = [] \<or> \<not> rejected (last evs1)"
      using isDescribe_not_request by blast
    have g1: "reissued (evs1 @ evs2)"
      using c2 describes_reissued [OF d2] e1' by (rule reissued_append)
    have g3: "acceptedUpdates (evs1 @ evs2) = ?plan"
      using acc1 describes_no_requests [OF d2] by (simp add: acceptedUpdates_append)
    have n4: "\<not> (evs1 @ evs2 \<noteq> [] \<and> last (evs1 @ evs2) = EvUpdateTable u (Some x))" for u x
    proof (cases "evs2 = []")
      case True
      with e1 show ?thesis by auto
    next
      case False
      with describes_last [OF d2] show ?thesis by auto
    qed
    from g1 g3 n4 first show ?thesis
      unfolding fin by blast
  qed
qed

text \<open>
  C2 (as amended). For every \<open>Update\<close> whose identifier parses, the \<open>UpdateTable\<close>
  requests that the remote service accepts are, in order, a prefix of the plan: the
  throughput-only update if the read or write capacity is reported changed, then, if the
  index collection is reported changed, one create-index update per addition, one
  update-index-capacity update per modification and one delete-index update per removal.
  They are the whole plan when \<open>Update\<close> returns no error. Every request issued is one of
  the plan and carries one change only: the throughput, or one index action. No request
  is issued while an accepted one is pending, that is, before a \<open>DescribeTable\<close> call has
  reported the table active after it; and when \<open>Update\<close> returns no error, none is pending
  at the end. \<open>Update\<close> issues no \<open>CreateTable\<close> and no \<open>DeleteTable\<close> call.

  \<open>Update\<close> carries the plan out: it is the run of \<open>updateTable\<close> on the steps of the plan,
  in order and up to the first step that fails, followed by a last wait when the index
  collection is reported changed. With a short retry profile of at least one attempt:
  the first call is the request of the first step of the plan; a request answered with
  an error, if it is not the last call, was answered "in use" or "not found" and is
  issued again at once, with no wait in between; \<open>Update\<close> returns an error only when
  every step was accepted (and a wait failed), or an accepted request is still pending
  (its wait failed), or the last call is a rejected request of the next step of the plan;
  and when the last call is a rejected request, either its error is one that is not
  retried and is the result, or the request was issued as often in a row as the short
  profile allows and the result is the error "could not be updated".
\<close>

theorem Update_issues_requests_in_order:
  assumes "ParseResourceName p ident = Inr name"
    and "Update p ident old new diff w = (res, evs, w')"
  shows "prefix (acceptedUpdates evs) (updatePlan name old new diff)
     \<and> (res = None \<longrightarrow> acceptedUpdates evs = updatePlan name old new diff)
     \<and> set (updateRequests evs) \<subseteq> set (updatePlan name old new diff)
     \<and> sequenced False evs
     \<and> (res = None \<longrightarrow> \<not> pendingAfter False evs)
     \<and> createRequests evs = [] \<and> deleteResponses evs = []
     \<and> (\<forall>u\<in>set (updateRequests evs).
           length (uti_GlobalSecondaryIndexUpdates u)
           + (if uti_ProvisionedThroughput u = None then 0 else 1) = 1)
     \<and> Update p ident old new diff w
         = andThen (forEach (updateTable p name) (updatePlan name old new diff))
             (if Changed diff Table_GlobalSecondaryIndexes then waitForTableState p name True
              else (\<lambda>w. (None, [], w))) w
     \<and> (0 < RetryTries p \<longrightarrow>
           reissued evs
           \<and> (updatePlan name old new diff \<noteq> [] \<longrightarrow>
                 evs \<noteq> []
                 \<and> hd evs = EvUpdateTable (hd (updatePlan name old new diff))
                              (fst (UpdateTable p (hd (updatePlan name old new diff)) w)))
           \<and> (res \<noteq> None \<longrightarrow>
                 acceptedUpdates evs = updatePlan name old new diff
                 \<or> pendingAfter False evs
                 \<or> (evs \<noteq> [] \<and> rejected (last evs)
                     \<and> length (acceptedUpdates evs) < length (updatePlan name old new diff)
                     \<and> requestOf (updatePlan name old new diff ! length (acceptedUpdates evs))
                          (last evs)))
           \<and> (\<forall>u x. evs \<noteq> [] \<and> last evs = EvUpdateTable u (Some x) \<longrightarrow>
                 (if transient x
                  then res = Some (couldNotBeUpdated name)
                       \<and> length (takeWhile (requestOf u) (rev evs)) = RetryTries p
                  else res = Some x)))"
proof -
  note F = Update_follows_plan [OF assms(1), of old new diff w, unfolded assms(2) follows_def]
  have one: "\<forall>u\<in>set (updateRequests evs).
           length (uti_GlobalSecondaryIndexUpdates u)
           + (if uti_ProvisionedThroughput u = None then 0 else 1) = 1"
  proof
    fix u assume "u \<in> set (updateRequests evs)"
    with F have "u \<in> set (updatePlan name old new diff)" by auto
    then show "length (uti_GlobalSecondaryIndexUpdates u)
           + (if uti_ProvisionedThroughput u = None then 0 else 1) = 1"
      by (rule plan_single_change)
  qed
  from F have old_part: "prefix (acceptedUpdates evs) (updatePlan name old new diff)
     \<and> (res = None \<longrightarrow> acceptedUpdates evs = updatePlan name old new diff)
     \<and> set (updateRequests evs) \<subseteq> set (updatePlan name old new diff)
     \<and> sequenced False evs
     \<and> (res = None \<longrightarrow> \<not> pendingAfter False evs)
     \<and> createRequests evs = [] \<and> deleteResponses evs = []"
    by simp
  note eq = Update_runs_plan [OF assms(1), of old new diff w]
  have prog: "0 < RetryTries p \<longrightarrow>
           reissued evs
           \<and> (updatePlan name old new diff \<noteq> [] \<longrightarrow>
                 evs \<noteq> []
                 \<and> hd evs = EvUpdateTable (hd (updatePlan name old new diff))
                              (fst (UpdateTable p (hd (updatePlan name old new diff)) w)))
           \<and> (res \<noteq> None \<longrightarrow>
                 acceptedUpdates evs = updatePlan name old new diff
                 \<or> pendingAfter False evs
                 \<or> (evs \<noteq> [] \<and> rejected (last evs)
                     \<and> length (acceptedUpdates evs) < length (updatePlan name old new diff)
                     \<and> requestOf (updatePlan name old new diff ! length (acceptedUpdates evs))
                          (last evs)))
           \<and> (\<forall>u x. evs \<noteq> [] \<and> last evs = EvUpdateTable u (Some x) \<longrightarrow>
                 (if transient x
                  then res = Some (couldNotBeUpdated name)
                       \<and> length (takeWhile (requestOf u) (rev evs)) = RetryTries p
                  else res = Some x))"
    using Update_progress [OF assms] by blast
  from old_part one eq prog show ?thesis by (intro conjI) blast+
qed

text \<open>
  On a service where every call succeeds, an update that changes the capacity, adds the
  index byDate and removes the index byStatus has three requests accepted: the throughput
  update, the creation of byDate, the deletion of byStatus, in that order. On a service
  that rejects every update as in use, with two attempts in the short retry profile, the
  throughput update is requested twice in a row and \<open>Update\<close> returns "could not be
  updated".
\<close>

theorem Update_issues_requests_in_order_witness:
  "ParseResourceName calm ''orders'' = Inr ''orders''
   \<and> fst (Update calm ''orders'' ordersByStatus ordersByDate10
             [Table_ReadCapacity, Table_GlobalSecondaryIndexes] 0) = None
   \<and> acceptedUpdates (fst (snd (Update calm ''orders'' ordersByStatus ordersByDate10
             [Table_ReadCapacity, Table_GlobalSecondaryIndexes] 0)))
       = [throughputUpdate ''orders'' ordersByDate10,
          createIndexUpdate ''orders'' ordersByDate10 (globalSecondaryIndexHash byDate),
          deleteIndexUpdate ''orders'' (globalSecondaryIndexHash byStatus)]
   \<and> sequenced False (fst (snd (Update calm ''orders'' ordersByStatus ordersByDate10
             [Table_ReadCapacity, Table_GlobalSecondaryIndexes] 0)))
   \<and> ParseResourceName alwaysBusy ''orders'' = Inr ''orders''
   \<and> 0 < RetryTries alwaysBusy
   \<and> fst (snd (Update alwaysBusy ''orders'' ordersTable ordersTable10 [Table_ReadCapacity] 0))
       = [EvUpdateTable (throughputUpdate ''orders'' ordersTable10) (Some resourceInUse),
          EvUpdateTable (throughputUpdate ''orders'' ordersTable10) (Some resourceInUse)]
   \<and> transient resourceInUse
   \<and> fst (Update alwaysBusy ''orders'' ordersTable ordersTable10 [Table_ReadCapacity] 0)
       = Some (couldNotBeUpdated ''orders'')
   \<and> RetryTries alwaysBusy = 2"
proof -
  let ?run = "Update calm ''orders'' ordersByStatus ordersByDate10
             [Table_ReadCapacity, Table_GlobalSecondaryIndexes] 0"
  let ?busy = "Update alwaysBusy ''orders'' ordersTable ordersTable10 [Table_ReadCapacity] 0"
  let ?u = "throughputUpdate ''orders'' ordersTable10"
  have parse: "ParseResourceName calm ''orders'' = Inr ''orders''"
    by (simp add: calm_def scripted_def parseNonEmpty_def)
  have run: "?run = (fst ?run, fst (snd ?run), snd (snd ?run))" by simp
  have ok: "fst ?run = None" by code_simp
  have plan: "updatePlan ''orders'' ordersByStatus ordersByDate10
                [Table_ReadCapacity, Table_GlobalSecondaryIndexes]
       = [throughputUpdate ''orders'' ordersByDate10,
          createIndexUpdate ''orders'' ordersByDate10 (globalSecondaryIndexHash byDate),
          deleteIndexUpdate ''orders'' (globalSecondaryIndexHash byStatus)]"
    by code_simp
  note T = Update_issues_requests_in_order [OF parse run]
  from T ok have acc: "acceptedUpdates (fst (snd ?run))
       = updatePlan ''orders'' ordersByStatus ordersByDate10
           [Table_ReadCapacity, Table_GlobalSecondaryIndexes]" by blast
  from T have sq: "sequenced False (fst (snd ?run))" by blast
  have bparse: "ParseResourceName alwaysBusy ''orders'' = Inr ''orders''"
    by (simp add: alwaysBusy_def scripted_def parseNonEmpty_def)
  have brun: "?busy = (fst ?busy, fst (snd ?busy), snd (snd ?busy))" by simp
  have tries: "RetryTries alwaysBusy = 2" by (simp add: alwaysBusy_def scripted_def)
  have bev: "fst (snd ?busy) = [EvUpdateTable ?u (Some resourceInUse),
                                EvUpdateTable ?u (Some resourceInUse)]"
    by (simp add: run_defs alwaysBusy_def)
  have tr: "transient resourceInUse"
    by (simp add: transient_def resourceInUse_def IsAWSError_def)
  note B = Update_issues_requests_in_order [OF bparse brun]
  have last: "fst (snd ?busy) \<noteq> [] \<and> last (fst (snd ?busy)) = EvUpdateTable ?u (Some resourceInUse)"
    unfolding bev by simp
  from B tries last tr have bres: "fst ?busy = Some (couldNotBeUpdated ''orders'')"
    by (metis zero_less_numeral)
  from parse ok acc [unfolded plan] sq bparse tries bev tr bres show ?thesis
    by simp
qed

text \<open>
  C2 as stated fails. With an identifier that does not parse, \<open>Update\<close> issues no call although
  the capacity is reported changed. On a service that rejects the first request as in
  use, the throughput update is requested twice, and the second request follows the
  first with no wait for the table to become active in between.
\<close>

theorem Update_issues_requests_in_order_counterexample:
  "Update calm [] ordersTable ordersTable10 [Table_ReadCapacity, Table_WriteCapacity] 0
     = (Some (Errorf ''not a resource name''), [], 0)
   \<and> Update busyOnce ''orders'' ordersTable ordersTable10 [Table_ReadCapacity, Table_WriteCapacity] 0
     = (None, [EvUpdateTable (throughputUpdate ''orders'' ordersTable10) (Some resourceInUse),
               EvUpdateTable (throughputUpdate ''orders'' ordersTable10) None,
               EvDescribeTable ''orders'' (Inr activeTable)], 3)"
  by (simp add: run_defs busyOnce_def calm_def)

text \<open>
  When the first request of \<open>updateTable\<close> is accepted, it is the only one.
\<close>

lemma updateTable_first_accepted:
  assumes "0 < RetryTries p" "fst (UpdateTable p u w) = None"
    and "updateTable p name u w = (res, evs, w')"
  shows "updateRequests evs = [u]"
proof -
  obtain n where n: "RetryTries p = Suc n" using assms(1) by (cases "RetryTries p") auto
  obtain w1 where u: "UpdateTable p u w = (None, w1)" using assms(2) by (cases "UpdateTable p u w") auto
  obtain res2 evs2 w2 where wt: "waitForTableState p name True w1 = (res2, evs2, w2)"
    by (metis prod.exhaust)
  from n u wt assms(3) have "evs = [EvUpdateTable u None] @ evs2"
    by (auto simp: updateTable_def RetryUntil_def updateTable_acceptor_def callUpdateTable_def)
  with waitForTableState_events [OF wt, of True] describes_no_requests [of name evs2]
  show ?thesis by (simp add: updateRequests_append)
qed

text \<open>
  C8 (as amended). For every \<open>Update\<close> whose identifier parses and whose diff reports the read
  or the write capacity as changed and the index collection as unchanged: every
  \<open>UpdateTable\<close> request issued is the throughput-only update to the new capacity, so no
  create-index, update-index or delete-index action is requested; at most one request is
  accepted, and exactly one when \<open>Update\<close> returns no error; and exactly one request is
  issued when the service accepts the first (and the retry budget is not zero).
\<close>

theorem Update_capacity_only:
  assumes "ParseResourceName p ident = Inr name"
    and "Changed diff Table_ReadCapacity \<or> Changed diff Table_WriteCapacity"
    and "\<not> Changed diff Table_GlobalSecondaryIndexes"
    and "Update p ident old new diff w = (res, evs, w')"
  shows "set (updateRequests evs) \<subseteq> {throughputUpdate name new}
     \<and> indexActions evs = []
     \<and> prefix (acceptedUpdates evs) [throughputUpdate name new]
     \<and> (res = None \<longrightarrow> acceptedUpdates evs = [throughputUpdate name new])
     \<and> (0 < RetryTries p \<and> fst (UpdateTable p (throughputUpdate name new) w) = None
          \<longrightarrow> updateRequests evs = [throughputUpdate name new])"
proof -
  have plan: "updatePlan name old new diff = [throughputUpdate name new]"
    using assms(2,3) by (auto simp: updatePlan_def)
  note F = Update_follows_plan [OF assms(1), of old new diff w, unfolded plan assms(4) follows_def]
  from F have sub: "set (updateRequests evs) \<subseteq> {throughputUpdate name new}" by simp
  have "\<forall>u \<in> set (updateRequests evs). uti_GlobalSecondaryIndexUpdates u = []"
    using sub by (auto simp: throughputUpdate_def)
  then have idx: "indexActions evs = []" by (simp add: indexActions_def)
  have first: "updateRequests evs = [throughputUpdate name new]"
    if "0 < RetryTries p" "fst (UpdateTable p (throughputUpdate name new) w) = None"
  proof -
    obtain r1 evs1 w1 where ut: "updateTable p name (throughputUpdate name new) w = (r1, evs1, w1)"
      by (metis prod.exhaust)
    from assms ut have "evs = evs1"
      by (auto simp: Update_def andThen_def split: option.splits)
    with updateTable_first_accepted [OF that ut] show ?thesis by simp
  qed
  from F sub idx first show ?thesis by simp
qed

text \<open>
  The scenario of the spec: changing only the capacity from 5/5 to 10/10 on a service that
  accepts the request issues exactly one throughput update and no index action.
\<close>

theorem Update_capacity_only_witness:
  "ParseResourceName calm ''orders'' = Inr ''orders''
   \<and> Changed [Table_ReadCapacity, Table_WriteCapacity] Table_ReadCapacity
   \<and> \<not> Changed [Table_ReadCapacity, Table_WriteCapacity] Table_GlobalSecondaryIndexes
   \<and> 0 < RetryTries calm
   \<and> fst (UpdateTable calm (throughputUpdate ''orders'' ordersTable10) 0) = None
   \<and> updateRequests (fst (snd (Update calm ''orders'' ordersTable ordersTable10
         [Table_ReadCapacity, Table_WriteCapacity] 0))) = [throughputUpdate ''orders'' ordersTable10]
   \<and> indexActions (fst (snd (Update calm ''orders'' ordersTable ordersTable10
         [Table_ReadCapacity, Table_WriteCapacity] 0))) = []"
proof -
  let ?diff = "[Table_ReadCapacity, Table_WriteCapacity]"
  let ?run = "Update calm ''orders'' ordersTable ordersTable10 ?diff 0"
  have parse: "ParseResourceName calm ''orders'' = Inr ''orders''"
    by (simp add: calm_def scripted_def parseNonEmpty_def)
  have ch: "Changed ?diff Table_ReadCapacity \<or> Changed ?diff Table_WriteCapacity"
    by (simp add: Changed_def)
  have nch: "\<not> Changed ?diff Table_GlobalSecondaryIndexes"
    by (simp add: Changed_def Table_ReadCapacity_def Table_WriteCapacity_def
        Table_GlobalSecondaryIndexes_def)
  have run: "?run = (fst ?run, fst (snd ?run), snd (snd ?run))" by simp
  have tries: "0 < RetryTries calm" by (simp add: calm_def scripted_def)
  have acc: "fst (UpdateTable calm (throughputUpdate ''orders'' ordersTable10) 0) = None"
    by (simp add: calm_def scripted_def)
  from Update_capacity_only [OF parse ch nch run] tries acc parse ch nch
  show ?thesis by (simp add: Changed_def)
qed

text \<open>
  C8 as stated fails. On a service that rejects the first request as in use, two
  throughput updates are requested, not one; with an identifier that does not parse, none.
\<close>

theorem Update_capacity_only_counterexample:
  "\<not> Changed [Table_ReadCapacity, Table_WriteCapacity] Table_GlobalSecondaryIndexes
   \<and> updateRequests (fst (snd (Update busyOnce ''orders'' ordersTable ordersTable10
         [Table_ReadCapacity, Table_WriteCapacity] 0)))
       = [throughputUpdate ''orders'' ordersTable10, throughputUpdate ''orders'' ordersTable10]
   \<and> updateRequests (fst (snd (Update busyOnce [] ordersTable ordersTable10
         [Table_ReadCapacity, Table_WriteCapacity] 0))) = []"
  by (simp add: run_defs busyOnce_def)

text \<open>
  C9. When the identifier parses and the diff reports neither the read capacity, nor the
  write capacity, nor the index collection as changed, \<open>Update\<close> returns no error, issues no
  remote call at all (no mutating call and no call of a wait), and leaves the remote world
  as it is.
\<close>

theorem Update_nothing_changed:
  assumes "ParseResourceName p ident = Inr name"
    and "\<not> Changed diff Table_ReadCapacity"
    and "\<not> Changed diff Table_WriteCapacity"
    and "\<not> Changed diff Table_GlobalSecondaryIndexes"
  shows "Update p ident old new diff w = (None, [], w)"
  using assms by (simp add: Update_def andThen_def)

text \<open>
  An update whose diff reports only the name as changed issues no call.
\<close>

theorem Update_nothing_changed_witness:
  "ParseResourceName calm ''orders'' = Inr ''orders''
   \<and> \<not> Changed [Table_Name] Table_ReadCapacity
   \<and> \<not> Changed [Table_Name] Table_WriteCapacity
   \<and> \<not> Changed [Table_Name] Table_GlobalSecondaryIndexes
   \<and> Update calm ''orders'' ordersTable ordersTable10 [Table_Name] 0 = (None, [], 0)"
proof -
  have parse: "ParseResourceName calm ''orders'' = Inr ''orders''"
    by (simp add: calm_def scripted_def parseNonEmpty_def)
  have a: "\<not> Changed [Table_Name] Table_ReadCapacity"
    and b: "\<not> Changed [Table_Name] Table_WriteCapacity"
    and c: "\<not> Changed [Table_Name] Table_GlobalSecondaryIndexes"
    by (simp_all add: Changed_def Table_Name_def Table_ReadCapacity_def Table_WriteCapacity_def
        Table_GlobalSecondaryIndexes_def)
  from Update_nothing_changed [OF parse a b c, of ordersTable ordersTable10 0] parse a b c
  show ?thesis by simp
qed

subsection \<open>The diff of the secondary indexes\<close>

lemma update_set:
  "(k', v') \<in> set (AList.update k v al) \<Longrightarrow> (k', v') = (k, v) \<or> (k', v') \<in> set al"
  by (induction al) (auto split: if_splits)

lemma fold_Add_inv:
  assumes "distinct (map fst S)" "\<forall>(k, h)\<in>set S. HashKey h = k"
  shows "distinct (map fst (fold (\<lambda>option set0. Add set0 (globalSecondaryIndexHash option)) opts S))
     \<and> (\<forall>(k, h)\<in>set (fold (\<lambda>option set0. Add set0 (globalSecondaryIndexHash option)) opts S).
           HashKey h = k)"
  using assms
proof (induction opts arbitrary: S)
  case Nil
  then show ?case by simp
next
  case (Cons a opts)
  have "distinct (map fst (Add S (globalSecondaryIndexHash a)))"
    using Cons.prems(1) by (simp add: Add_def distinct_update)
  moreover have "\<forall>(k, h)\<in>set (Add S (globalSecondaryIndexHash a)). HashKey h = k"
    using Cons.prems(2) by (auto simp: Add_def dest!: update_set)
  ultimately show ?case using Cons.IH by simp
qed

lemma fold_Add_keys:
  "fst ` set (fold (\<lambda>option set0. Add set0 (globalSecondaryIndexHash option)) opts S)
     = fst ` set S \<union> gsi_IndexName ` set opts"
  by (induction opts arbitrary: S) (auto simp: Add_def dom_update HashKey_def)

lemma hashSet_distinct: "distinct (map fst (newGlobalSecondaryIndexHashSet options))"
  using fold_Add_inv [of "[]"]
  by (simp add: newGlobalSecondaryIndexHashSet_def NewHashSet_def split: option.splits)

lemma hashSet_keyed:
  "(k, h) \<in> set (newGlobalSecondaryIndexHashSet options) \<Longrightarrow> HashKey h = k"
  using fold_Add_inv [of "[]"]
  by (fastforce simp: newGlobalSecondaryIndexHashSet_def NewHashSet_def split: option.splits)

lemma hashSet_keys:
  "keysOf (newGlobalSecondaryIndexHashSet options)
     = (case options of None \<Rightarrow> {} | Some gs \<Rightarrow> gsi_IndexName ` set gs)"
  using fold_Add_keys [of _ "[]"]
  by (simp add: newGlobalSecondaryIndexHashSet_def NewHashSet_def keysOf_def split: option.splits)

lemma hashSet_lookup:
  "map_of (newGlobalSecondaryIndexHashSet options) k = Some h
     \<longleftrightarrow> (k, h) \<in> set (newGlobalSecondaryIndexHashSet options)"
  by (simp add: hashSet_distinct)

lemma keysOf_lookup: "k \<in> keysOf S \<longleftrightarrow> map_of S k \<noteq> None"
  by (simp add: keysOf_def map_of_eq_None_iff)

lemma names_of_filter:
  assumes "\<And>k h. (k, h) \<in> set S \<Longrightarrow> HashKey h = k"
  shows "map HashKey (map snd (filter P S)) = map fst (filter P S)"
  using assms by (induction S) auto

lemma HashValue_eq_if_truncations_eq:
  assumes "go_int (gsi_ReadCapacity (item ho)) = go_int (gsi_ReadCapacity (item hn))"
    and "go_int (gsi_WriteCapacity (item ho)) = go_int (gsi_WriteCapacity (item hn))"
  shows "HashValue ho = HashValue hn"
  using assms by (simp add: HashValue_def)

lemma HashValue_eq_plain:
  assumes "plainIndex ho" "plainIndex hn"
  shows "HashValue ho = HashValue hn \<longleftrightarrow>
     go_int (gsi_ReadCapacity (item ho)) = go_int (gsi_ReadCapacity (item hn))
     \<and> go_int (gsi_WriteCapacity (item ho)) = go_int (gsi_WriteCapacity (item hn))"
  using assms by (auto simp: HashValue_def plainIndex_def plainCapacity_def go_string_of_int_def)

lemma keys_filter:
  "set (map fst (filter P N)) = {k. \<exists>h. (k, h) \<in> set N \<and> P (k, h)}"
  by (induction N) auto

lemma only_in:
  "{k. \<exists>h. (k, h) \<in> set N \<and> (case (k, h) of (k, h) \<Rightarrow> map_of S k = None)}
     = set (map fst N) - set (map fst S)"
proof -
  have "\<And>k. (\<exists>h. (k, h) \<in> set N) \<longleftrightarrow> k \<in> fst ` set N" by force
  then show ?thesis by (auto simp: map_of_eq_None_iff)
qed

lemma Diff_names:
  fixes old new :: "GlobalSecondaryIndex list option"
  defines "S \<equiv> newGlobalSecondaryIndexHashSet old" and "N \<equiv> newGlobalSecondaryIndexHashSet new"
  shows "map HashKey (Adds (Diff S N)) = map fst (filter (\<lambda>(k, h). map_of S k = None) N)"
    and "map HashKey (Updates (Diff S N))
          = map fst (filter (\<lambda>(k, h). case map_of S k of None \<Rightarrow> False
                                      | Some h0 \<Rightarrow> HashValue h0 \<noteq> HashValue h) N)"
    and "map HashKey (Deletes (Diff S N)) = map fst (filter (\<lambda>(k, h). map_of N k = None) S)"
proof -
  have n: "\<And>P. map HashKey (map snd (filter P N)) = map fst (filter P N)"
    unfolding N_def by (rule names_of_filter) (rule hashSet_keyed)
  have s: "\<And>P. map HashKey (map snd (filter P S)) = map fst (filter P S)"
    unfolding S_def by (rule names_of_filter) (rule hashSet_keyed)
  show "map HashKey (Adds (Diff S N)) = map fst (filter (\<lambda>(k, h). map_of S k = None) N)"
    by (simp only: Diff_def HashSetDiff.simps n)
  show "map HashKey (Updates (Diff S N))
          = map fst (filter (\<lambda>(k, h). case map_of S k of None \<Rightarrow> False
                                      | Some h0 \<Rightarrow> HashValue h0 \<noteq> HashValue h) N)"
    by (simp only: Diff_def HashSetDiff.simps n)
  show "map HashKey (Deletes (Diff S N)) = map fst (filter (\<lambda>(k, h). map_of N k = None) S)"
    by (simp only: Diff_def HashSetDiff.simps s)
qed

lemma Diff_Adds_names:
  "indexNames (Adds (Diff (newGlobalSecondaryIndexHashSet old) (newGlobalSecondaryIndexHashSet new)))
     = keysOf (newGlobalSecondaryIndexHashSet new) - keysOf (newGlobalSecondaryIndexHashSet old)"
  unfolding indexNames_def Diff_names keys_filter keysOf_def
  by (rule only_in)

lemma Diff_Deletes_names:
  "indexNames (Deletes (Diff (newGlobalSecondaryIndexHashSet old) (newGlobalSecondaryIndexHashSet new)))
     = keysOf (newGlobalSecondaryIndexHashSet old) - keysOf (newGlobalSecondaryIndexHashSet new)"
  unfolding indexNames_def Diff_names keys_filter keysOf_def
  by (rule only_in)

lemma Diff_Updates_names:
  "indexNames (Updates (Diff (newGlobalSecondaryIndexHashSet old) (newGlobalSecondaryIndexHashSet new)))
     = {k. \<exists>ho hn. map_of (newGlobalSecondaryIndexHashSet old) k = Some ho
                  \<and> map_of (newGlobalSecondaryIndexHashSet new) k = Some hn
                  \<and> HashValue ho \<noteq> HashValue hn}"
  unfolding indexNames_def Diff_names keys_filter
  by (auto simp: hashSet_lookup [symmetric] split: option.splits)

lemma Diff_distinct:
  "distinct (map HashKey (Adds (Diff (newGlobalSecondaryIndexHashSet old) (newGlobalSecondaryIndexHashSet new))
                         @ Updates (Diff (newGlobalSecondaryIndexHashSet old) (newGlobalSecondaryIndexHashSet new))
                         @ Deletes (Diff (newGlobalSecondaryIndexHashSet old) (newGlobalSecondaryIndexHashSet new))))"
proof -
  let ?d = "Diff (newGlobalSecondaryIndexHashSet old) (newGlobalSecondaryIndexHashSet new)"
  have "distinct (map HashKey (Adds ?d))" "distinct (map HashKey (Updates ?d))"
    "distinct (map HashKey (Deletes ?d))"
    unfolding Diff_names by (simp_all add: distinct_map_filter hashSet_distinct)
  moreover have "indexNames (Adds ?d) \<inter> indexNames (Updates ?d) = {}"
    "indexNames (Adds ?d) \<inter> indexNames (Deletes ?d) = {}"
    "indexNames (Updates ?d) \<inter> indexNames (Deletes ?d) = {}"
    unfolding Diff_Adds_names Diff_Deletes_names Diff_Updates_names
    by (auto simp: keysOf_lookup)
  ultimately show ?thesis by (auto simp: indexNames_def)
qed

lemmas set_defs = newGlobalSecondaryIndexHashSet_def NewHashSet_def Add_def HashKey_def
  HashValue_def Diff_def go_int_def go_string_of_int_def byStatus_def byDate_def byStatusA_def
  byStatusB_def byStatus10_def indexNames_def plainIndex_def plainCapacity_def

text \<open>
  C3 (as amended). For every pair of an old and a new collection of secondary indexes,
  held as hash sets keyed by index name (the keys of a set are the index names of its
  collection): the additions are the names present only in the new set, the removals the
  names present only in the old set, and the modifications the names present in both
  whose hash values differ. No name appears twice among the additions, modifications and
  removals, within a part or across parts. An index present in both sets with identical
  read and write capacity appears in none of the three parts. For two indexes of one name
  whose capacities have integer parts that are valid code points (from 0 to 55295, or
  from 57344 to 1114111), the name is a modification exactly when the integer parts of
  the read or of the write capacities differ.
\<close>

theorem Diff_partitions_index_names:
  "(let S = newGlobalSecondaryIndexHashSet old; N = newGlobalSecondaryIndexHashSet new;
        d = Diff S N
    in keysOf S = (case old of None \<Rightarrow> {} | Some gs \<Rightarrow> gsi_IndexName ` set gs)
     \<and> keysOf N = (case new of None \<Rightarrow> {} | Some gs \<Rightarrow> gsi_IndexName ` set gs)
     \<and> indexNames (Adds d) = keysOf N - keysOf S
     \<and> indexNames (Deletes d) = keysOf S - keysOf N
     \<and> indexNames (Updates d)
         = {k. \<exists>ho hn. map_of S k = Some ho \<and> map_of N k = Some hn \<and> HashValue ho \<noteq> HashValue hn}
     \<and> distinct (map HashKey (Adds d @ Updates d @ Deletes d))
     \<and> (\<forall>k ho hn. map_of S k = Some ho \<and> map_of N k = Some hn
            \<and> gsi_ReadCapacity (item ho) = gsi_ReadCapacity (item hn)
            \<and> gsi_WriteCapacity (item ho) = gsi_WriteCapacity (item hn)
          \<longrightarrow> k \<notin> indexNames (Adds d) \<union> indexNames (Updates d) \<union> indexNames (Deletes d))
     \<and> (\<forall>k ho hn. map_of S k = Some ho \<and> map_of N k = Some hn \<and> plainIndex ho \<and> plainIndex hn
          \<longrightarrow> (k \<in> indexNames (Updates d)
               \<longleftrightarrow> go_int (gsi_ReadCapacity (item ho)) \<noteq> go_int (gsi_ReadCapacity (item hn))
                   \<or> go_int (gsi_WriteCapacity (item ho)) \<noteq> go_int (gsi_WriteCapacity (item hn)))))"
proof -
  let ?S = "newGlobalSecondaryIndexHashSet old"
  let ?N = "newGlobalSecondaryIndexHashSet new"
  let ?d = "Diff ?S ?N"
  have same: "k \<notin> indexNames (Adds ?d) \<union> indexNames (Updates ?d) \<union> indexNames (Deletes ?d)"
    if "map_of ?S k = Some ho" "map_of ?N k = Some hn"
      "gsi_ReadCapacity (item ho) = gsi_ReadCapacity (item hn)"
      "gsi_WriteCapacity (item ho) = gsi_WriteCapacity (item hn)" for k ho hn
  proof -
    from that(3,4) have "HashValue ho = HashValue hn" by (simp add: HashValue_def)
    with that(1,2) show ?thesis
      unfolding Diff_Adds_names Diff_Deletes_names Diff_Updates_names
      by (auto simp: keysOf_lookup)
  qed
  have plain: "k \<in> indexNames (Updates ?d)
               \<longleftrightarrow> go_int (gsi_ReadCapacity (item ho)) \<noteq> go_int (gsi_ReadCapacity (item hn))
                   \<or> go_int (gsi_WriteCapacity (item ho)) \<noteq> go_int (gsi_WriteCapacity (item hn))"
    if "map_of ?S k = Some ho" "map_of ?N k = Some hn" "plainIndex ho" "plainIndex hn" for k ho hn
    using that(1,2) HashValue_eq_plain [OF that(3,4)]
    unfolding Diff_Updates_names by auto
  show ?thesis
    unfolding Let_def
    using hashSet_keys [of old] hashSet_keys [of new] Diff_Adds_names [of old new]
      Diff_Deletes_names [of old new] Diff_Updates_names [of old new] Diff_distinct [of old new]
      same plain
    by blast
qed

text \<open>
  Between the indexes (byStatus at 5/5, byDate at 5/5) and (byStatus at 10/5, byDate at
  5/5), byStatus is a modification and byDate is not.
\<close>

theorem Diff_partitions_index_names_witness:
  "map_of (newGlobalSecondaryIndexHashSet (Some [byStatus, byDate])) ''byStatus''
     = Some (globalSecondaryIndexHash byStatus)
   \<and> map_of (newGlobalSecondaryIndexHashSet (Some [byStatus10, byDate])) ''byStatus''
     = Some (globalSecondaryIndexHash byStatus10)
   \<and> plainIndex (globalSecondaryIndexHash byStatus) \<and> plainIndex (globalSecondaryIndexHash byStatus10)
   \<and> ''byStatus'' \<in> indexNames (Updates (Diff (newGlobalSecondaryIndexHashSet (Some [byStatus, byDate]))
                                   (newGlobalSecondaryIndexHashSet (Some [byStatus10, byDate]))))
   \<and> map_of (newGlobalSecondaryIndexHashSet (Some [byStatus, byDate])) ''byDate''
     = Some (globalSecondaryIndexHash byDate)
   \<and> map_of (newGlobalSecondaryIndexHashSet (Some [byStatus10, byDate])) ''byDate''
     = Some (globalSecondaryIndexHash byDate)
   \<and> ''byDate'' \<notin> indexNames (Updates (Diff (newGlobalSecondaryIndexHashSet (Some [byStatus, byDate]))
                                   (newGlobalSecondaryIndexHashSet (Some [byStatus10, byDate]))))"
proof -
  let ?S = "newGlobalSecondaryIndexHashSet (Some [byStatus, byDate])"
  let ?N = "newGlobalSecondaryIndexHashSet (Some [byStatus10, byDate])"
  have a: "map_of ?S ''byStatus'' = Some (globalSecondaryIndexHash byStatus)"
    and b: "map_of ?N ''byStatus'' = Some (globalSecondaryIndexHash byStatus10)"
    and c: "map_of ?S ''byDate'' = Some (globalSecondaryIndexHash byDate)"
    and d: "map_of ?N ''byDate'' = Some (globalSecondaryIndexHash byDate)"
    by (simp_all add: set_defs)
  have p: "plainIndex (globalSecondaryIndexHash byStatus)"
    "plainIndex (globalSecondaryIndexHash byStatus10)"
    by (simp_all add: set_defs)
  have ne: "go_int (gsi_ReadCapacity (item (globalSecondaryIndexHash byStatus)))
            \<noteq> go_int (gsi_ReadCapacity (item (globalSecondaryIndexHash byStatus10)))"
    by (simp add: set_defs)
  note T = Diff_partitions_index_names [of "Some [byStatus, byDate]" "Some [byStatus10, byDate]",
      unfolded Let_def]
  from T a b p ne have "''byStatus'' \<in> indexNames (Updates (Diff ?S ?N))" by blast
  moreover from T c d have "''byDate'' \<notin> indexNames (Updates (Diff ?S ?N))" by blast
  ultimately show ?thesis using a b c d p by simp
qed

text \<open>
  C3 as stated fails: an index present in both collections with read capacity 5.5 in the
  old one and 5.2 in the new one has different capacity values, yet it is no
  modification.
\<close>

theorem Diff_partitions_index_names_counterexample:
  "gsi_IndexName byStatusA = gsi_IndexName byStatusB
   \<and> gsi_ReadCapacity byStatusA \<noteq> gsi_ReadCapacity byStatusB
   \<and> Updates (Diff (newGlobalSecondaryIndexHashSet (Some [byStatusA]))
                   (newGlobalSecondaryIndexHashSet (Some [byStatusB]))) = []"
  by code_simp

text \<open>
  An update-index action of a planned request names a modification of the diff.
\<close>

lemma plan_update_actions:
  assumes "u \<in> set (updatePlan name old new diff)"
    and "UpdateAction k pt \<in> set (uti_GlobalSecondaryIndexUpdates u)"
  shows "k \<in> indexNames (Updates (Diff (newGlobalSecondaryIndexHashSet (tab_GlobalSecondaryIndexes old))
                                      (newGlobalSecondaryIndexHashSet (tab_GlobalSecondaryIndexes new))))"
  using assms
  by (auto simp: updatePlan_def Let_def throughputUpdate_def createIndexUpdate_def
      updateIndexUpdate_def deleteIndexUpdate_def indexNames_def HashKey_def split: if_splits)

text \<open>
  C10. The hash value of an index is built from the integer parts of its read and write
  capacities. For every index name present in both the old and the new hash set: if the
  integer parts of the two read capacities agree and those of the two write capacities
  agree, the two hash values are equal, the name is not among the modifications of the
  diff, and no \<open>UpdateTable\<close> request that \<open>Update\<close> issues carries an update-index
  action for that name.
\<close>

theorem HashValue_truncates_capacities:
  assumes "map_of (newGlobalSecondaryIndexHashSet (tab_GlobalSecondaryIndexes old)) k = Some ho"
    and "map_of (newGlobalSecondaryIndexHashSet (tab_GlobalSecondaryIndexes new)) k = Some hn"
    and "go_int (gsi_ReadCapacity (item ho)) = go_int (gsi_ReadCapacity (item hn))"
    and "go_int (gsi_WriteCapacity (item ho)) = go_int (gsi_WriteCapacity (item hn))"
    and "Update p ident old new diff w = (res, evs, w')"
  shows "HashValue ho = HashValue hn
     \<and> k \<notin> indexNames (Updates (Diff (newGlobalSecondaryIndexHashSet (tab_GlobalSecondaryIndexes old))
                                     (newGlobalSecondaryIndexHashSet (tab_GlobalSecondaryIndexes new))))
     \<and> (\<forall>pt. UpdateAction k pt \<notin> set (indexActions evs))"
proof -
  let ?d = "Diff (newGlobalSecondaryIndexHashSet (tab_GlobalSecondaryIndexes old))
                 (newGlobalSecondaryIndexHashSet (tab_GlobalSecondaryIndexes new))"
  have hv: "HashValue ho = HashValue hn"
    using assms(3,4) by (rule HashValue_eq_if_truncations_eq)
  have notin: "k \<notin> indexNames (Updates ?d)"
    using assms(1,2) hv unfolding Diff_Updates_names by auto
  have "UpdateAction k pt \<notin> set (indexActions evs)" for pt
  proof
    assume "UpdateAction k pt \<in> set (indexActions evs)"
    then obtain u where u: "u \<in> set (updateRequests evs)"
      "UpdateAction k pt \<in> set (uti_GlobalSecondaryIndexUpdates u)"
      by (auto simp: indexActions_def)
    show False
    proof (cases "ParseResourceName p ident")
      case (Inl err)
      with assms(5) have "evs = []" by (auto simp: Update_def)
      with u show False by simp
    next
      case (Inr name)
      from Update_follows_plan [OF Inr, of old new diff w] assms(5)
      have "set (updateRequests evs) \<subseteq> set (updatePlan name old new diff)"
        by (simp add: follows_def)
      with u have "u \<in> set (updatePlan name old new diff)" by blast
      from plan_update_actions [OF this u(2)] notin show False by simp
    qed
  qed
  with hv notin show ?thesis by simp
qed

text \<open>
  The read capacities 5.5 and 5.2 differ, their integer parts agree: the index is not
  modified and \<open>Update\<close> requests no update of it.
\<close>

theorem HashValue_truncates_capacities_witness:
  "map_of (newGlobalSecondaryIndexHashSet (tab_GlobalSecondaryIndexes ordersA)) ''byStatus''
     = Some (globalSecondaryIndexHash byStatusA)
   \<and> map_of (newGlobalSecondaryIndexHashSet (tab_GlobalSecondaryIndexes ordersB)) ''byStatus''
     = Some (globalSecondaryIndexHash byStatusB)
   \<and> go_int (gsi_ReadCapacity byStatusA) = go_int (gsi_ReadCapacity byStatusB)
   \<and> go_int (gsi_WriteCapacity byStatusA) = go_int (gsi_WriteCapacity byStatusB)
   \<and> gsi_ReadCapacity byStatusA \<noteq> gsi_ReadCapacity byStatusB
   \<and> HashValue (globalSecondaryIndexHash byStatusA) = HashValue (globalSecondaryIndexHash byStatusB)
   \<and> (\<forall>pt. UpdateAction ''byStatus'' pt
          \<notin> set (indexActions (fst (snd (Update calm ''orders'' ordersA ordersB
                                         [Table_GlobalSecondaryIndexes] 0)))))"
proof -
  let ?run = "Update calm ''orders'' ordersA ordersB [Table_GlobalSecondaryIndexes] 0"
  have a: "map_of (newGlobalSecondaryIndexHashSet (tab_GlobalSecondaryIndexes ordersA)) ''byStatus''
     = Some (globalSecondaryIndexHash byStatusA)"
    and b: "map_of (newGlobalSecondaryIndexHashSet (tab_GlobalSecondaryIndexes ordersB)) ''byStatus''
     = Some (globalSecondaryIndexHash byStatusB)"
    by (simp_all add: set_defs ordersA_def ordersB_def)
  have r: "go_int (gsi_ReadCapacity (item (globalSecondaryIndexHash byStatusA)))
         = go_int (gsi_ReadCapacity (item (globalSecondaryIndexHash byStatusB)))"
    and w: "go_int (gsi_WriteCapacity (item (globalSecondaryIndexHash byStatusA)))
         = go_int (gsi_WriteCapacity (item (globalSecondaryIndexHash byStatusB)))"
    by code_simp+
  have ne: "gsi_ReadCapacity byStatusA \<noteq> gsi_ReadCapacity byStatusB"
    by code_simp
  have run: "?run = (fst ?run, fst (snd ?run), snd (snd ?run))" by simp
  from HashValue_truncates_capacities [OF a b r w run] a b r w ne
  show ?thesis by simp
qed

subsection \<open>Delete\<close>

lemma inUse_None: "\<not> inUse None"
  by (simp add: inUse_def)

lemma inUse_not_absent: "inUse r \<Longrightarrow> \<not> alreadyAbsent r"
  by (auto simp: inUse_def alreadyAbsent_def IsAWSError_def ErrCodeResourceInUseException_def
      ErrCodeResourceNotFoundException_def split: option.splits error.splits)

lemma Delete_acceptor_cases:
  assumes "Delete_acceptor p name w = ((done, err), evs, w')"
  shows "evs = [EvDeleteTable name (fst (DeleteTable p name w))]"
    and "done \<longleftrightarrow> fst (DeleteTable p name w) = None \<or> alreadyAbsent (fst (DeleteTable p name w))"
    and "done \<longrightarrow> err = None"
    and "err \<noteq> None \<longrightarrow> fst (DeleteTable p name w) = err
           \<and> \<not> alreadyAbsent (fst (DeleteTable p name w)) \<and> \<not> inUse (fst (DeleteTable p name w))"
    and "\<not> done \<and> err = None \<longrightarrow> inUse (fst (DeleteTable p name w))"
  using assms
  by (auto simp: Delete_acceptor_def callDeleteTable_def alreadyAbsent_def inUse_def
      split: prod.splits option.splits if_splits)

lemma retry_delete:
  "retry n (Delete_acceptor p name) w = ((succ, err), evs, w') \<Longrightarrow>
     map (EvDeleteTable name) (deleteResponses evs) = evs
     \<and> length (deleteResponses evs) \<le> n
     \<and> (\<forall>r\<in>set (butlast (deleteResponses evs)). inUse r)
     \<and> (succ \<longrightarrow> err = None \<and> deleteResponses evs \<noteq> []
           \<and> (last (deleteResponses evs) = None \<or> alreadyAbsent (last (deleteResponses evs))))
     \<and> (err \<noteq> None \<longrightarrow> \<not> succ \<and> deleteResponses evs \<noteq> [] \<and> last (deleteResponses evs) = err
           \<and> \<not> alreadyAbsent err \<and> \<not> inUse err)
     \<and> (\<not> succ \<and> err = None \<longrightarrow> length (deleteResponses evs) = n
           \<and> (\<forall>r\<in>set (deleteResponses evs). inUse r))"
proof (induction n arbitrary: w succ err evs w')
  case 0
  then show ?case by simp
next
  case (Suc n)
  obtain d e evs1 w1 where acc: "Delete_acceptor p name w = ((d, e), evs1, w1)"
    by (metis prod.exhaust)
  define r where "r = fst (DeleteTable p name w)"
  have r: "evs1 = [EvDeleteTable name r]" "d \<longleftrightarrow> r = None \<or> alreadyAbsent r" "d \<longrightarrow> e = None"
      "e \<noteq> None \<longrightarrow> r = e \<and> \<not> alreadyAbsent r \<and> \<not> inUse r" "\<not> d \<and> e = None \<longrightarrow> inUse r"
    unfolding r_def by (rule Delete_acceptor_cases [OF acc])+
  show ?case
  proof (cases e)
    case (Some x)
    with Suc.prems acc have fin: "succ = False" "err = Some x" "evs = evs1" by auto
    have rx: "r = Some x" "\<not> alreadyAbsent (Some x)" "\<not> inUse (Some x)"
      using r(4) Some by auto
    have dr: "deleteResponses evs = [Some x]" "evs = [EvDeleteTable name (Some x)]"
      using fin(3) r(1) rx(1) by simp_all
    show ?thesis unfolding dr(1) fin(1,2) using dr(2) rx(2,3) by simp
  next
    case None
    show ?thesis
    proof (cases d)
      case True
      with None Suc.prems acc have fin: "succ = True" "err = None" "evs = evs1" by auto
      have rx: "r = None \<or> alreadyAbsent r" using r(2) True by blast
      have dr: "deleteResponses evs = [r]" "evs = [EvDeleteTable name r]"
        using fin(3) r(1) by simp_all
      show ?thesis unfolding dr(1) fin(1,2) using dr(2) rx by simp
    next
      case False
      obtain s2 e2 evs2 w2 where rec: "retry n (Delete_acceptor p name) w1 = ((s2, e2), evs2, w2)"
        by (metis prod.exhaust)
      from False None Suc.prems acc rec have eq: "succ = s2" "err = e2" "evs = evs1 @ evs2" by auto
      have busy: "inUse r" using r(5) False None by blast
      note IH = Suc.IH [OF rec]
      note i1 = IH [THEN conjunct1]
      note i2 = IH [THEN conjunct2, THEN conjunct1]
      note i3 = IH [THEN conjunct2, THEN conjunct2, THEN conjunct1]
      note i4 = IH [THEN conjunct2, THEN conjunct2, THEN conjunct2, THEN conjunct1]
      note i5 = IH [THEN conjunct2, THEN conjunct2, THEN conjunct2, THEN conjunct2, THEN conjunct1]
      note i6 = IH [THEN conjunct2, THEN conjunct2, THEN conjunct2, THEN conjunct2, THEN conjunct2]
      let ?rs2 = "deleteResponses evs2"
      have rs: "deleteResponses evs = r # ?rs2"
        using eq(3) r(1) by simp
      have ev: "map (EvDeleteTable name) (r # ?rs2) = evs"
        using eq(3) r(1) i1 by simp
      have g2: "length (r # ?rs2) \<le> Suc n" using i2 by simp
      have g3: "\<forall>x\<in>set (butlast (r # ?rs2)). inUse x" using i3 busy by simp
      have g4: "s2 \<longrightarrow> e2 = None \<and> r # ?rs2 \<noteq> []
           \<and> (last (r # ?rs2) = None \<or> alreadyAbsent (last (r # ?rs2)))"
        using i4 by auto
      have g5: "e2 \<noteq> None \<longrightarrow> \<not> s2 \<and> r # ?rs2 \<noteq> [] \<and> last (r # ?rs2) = e2
           \<and> \<not> alreadyAbsent e2 \<and> \<not> inUse e2"
        using i5 by auto
      have g6: "\<not> s2 \<and> e2 = None \<longrightarrow> length (r # ?rs2) = Suc n
           \<and> (\<forall>x\<in>set (r # ?rs2). inUse x)"
        using i6 busy by simp
      from ev g2 g3 g4 g5 g6 show ?thesis
        unfolding rs eq(1,2) by (intro conjI)
    qed
  qed
qed

lemma deletes_no_requests:
  "updateRequests (map (EvDeleteTable name) rs) = []
   \<and> createRequests (map (EvDeleteTable name) rs) = []"
  by (induction rs) simp_all

lemma couldNotBeDeleted_dedicated:
  "couldNotBeDeleted name \<noteq> didNotBecome name exist
   \<and> (\<exists>a b. couldNotBeDeleted name = Errorf (a @ name @ b))"
proof -
  have "''DynamoDB table '' @ quoted name @ '' could not be deleted''
        \<noteq> ''DynamoDB table '' @ quoted name @ '' did not become '' @ s" for s
    by simp
  then have "couldNotBeDeleted name \<noteq> didNotBecome name exist"
    by (simp add: couldNotBeDeleted_def didNotBecome_def)
  moreover have "couldNotBeDeleted name
      = Errorf ((''DynamoDB table '' @ [CHR 0x27]) @ name @ ([CHR 0x27] @ '' could not be deleted''))"
    by (simp add: couldNotBeDeleted_def quoted_def)
  ultimately show ?thesis by blast
qed

lemma set_butlast_last: "rs \<noteq> [] \<Longrightarrow> x \<in> set rs \<Longrightarrow> x \<in> set (butlast rs) \<or> x = last rs"
  by (induction rs) (auto split: if_splits)

text \<open>
  C5 (as amended). For every \<open>Delete\<close> whose identifier parses: the \<open>DeleteTable\<close> call is
  issued inside the long retry profile, so at most as often as that profile allows. A
  call answered "in use" is retried rather than failed: every response but the last is
  "in use", and when the last one is "in use" too, the budget is exhausted and \<open>Delete\<close>
  returns the dedicated error "could not be deleted", which names the table and is not
  the error of a wait that ran out. Any other error of a call is returned at once: it is
  the result, and its call is the last remote call. A call that succeeds, or is answered
  "not found", ends the loop with success: no further \<open>DeleteTable\<close> call is issued, and
  \<open>Delete\<close> goes on to wait for the table to be gone and returns the result of that wait.
  \<open>Delete\<close> issues no \<open>UpdateTable\<close> and no \<open>CreateTable\<close> call.
\<close>

theorem Delete_retries_and_reports:
  assumes "ParseResourceName p ident = Inr name"
    and "Delete p ident w = (res, evs, w')"
  shows "length (deleteResponses evs) \<le> RetryTriesLong p
     \<and> (\<forall>r\<in>set (butlast (deleteResponses evs)). inUse r)
     \<and> (deleteResponses evs = [] \<or> inUse (last (deleteResponses evs))
          \<longrightarrow> length (deleteResponses evs) = RetryTriesLong p
              \<and> res = Some (couldNotBeDeleted name)
              \<and> evs = map (EvDeleteTable name) (deleteResponses evs))
     \<and> (\<forall>e. Some e \<in> set (deleteResponses evs) \<and> \<not> inUse (Some e) \<and> \<not> alreadyAbsent (Some e)
          \<longrightarrow> res = Some e \<and> evs \<noteq> [] \<and> last evs = EvDeleteTable name (Some e))
     \<and> (deleteResponses evs \<noteq> []
          \<and> (last (deleteResponses evs) = None \<or> alreadyAbsent (last (deleteResponses evs)))
          \<longrightarrow> (\<exists>w1 evs2. evs = map (EvDeleteTable name) (deleteResponses evs) @ evs2
                 \<and> waitForTableState p name False w1 = (res, evs2, w')))
     \<and> couldNotBeDeleted name \<noteq> didNotBecome name False
     \<and> (\<exists>a b. couldNotBeDeleted name = Errorf (a @ name @ b))
     \<and> updateRequests evs = [] \<and> createRequests evs = []"
proof -
  let ?rs = "deleteResponses evs"
  obtain s e evs1 w1 where
    r: "retry (RetryTriesLong p) (Delete_acceptor p name) w = ((s, e), evs1, w1)"
    by (metis prod.exhaust)
  note R = retry_delete [OF r]
  from R have m: "map (EvDeleteTable name) (deleteResponses evs1) = evs1" by (rule conjunct1)
  have nou1: "updateRequests evs1 = []" "createRequests evs1 = []"
    using deletes_no_requests [of name "deleteResponses evs1"] unfolding m by simp_all
  obtain res2 evs2 w2 where wt: "waitForTableState p name False w1 = (res2, evs2, w2)"
    by (metis prod.exhaust)
  note D = describes_no_requests [of name evs2]
  from waitForTableState_events [OF wt, of False] D
  have nou2: "updateRequests evs2 = []" "createRequests evs2 = []" "deleteResponses evs2 = []"
    by simp_all
  have unfold: "Delete p ident w =
      (case e of Some err \<Rightarrow> (Some err, evs1, w1)
       | None \<Rightarrow> if \<not> s then (Some (couldNotBeDeleted name), evs1, w1)
                 else (res2, evs1 @ evs2, w2))"
    using assms(1) r wt by (simp add: Delete_def RetryUntilLong_def split: option.splits)
  have evs_cases: "evs = evs1 \<or> evs = evs1 @ evs2"
    using unfold assms(2) by (auto split: option.splits if_splits)
  then have rs: "?rs = deleteResponses evs1"
    using nou2 by (auto simp: deleteResponses_append)
  have c1: "length ?rs \<le> RetryTriesLong p" using R rs by simp
  have c2: "\<forall>r\<in>set (butlast ?rs). inUse r" using R rs by simp
  have c6: "couldNotBeDeleted name \<noteq> didNotBecome name False"
    and c7: "\<exists>a b. couldNotBeDeleted name = Errorf (a @ name @ b)"
    using couldNotBeDeleted_dedicated [of name False] by blast+
  have c8: "updateRequests evs = []" and c9: "createRequests evs = []"
    using evs_cases nou1 nou2 by (auto simp: updateRequests_append createRequests_append)
  have c3: "?rs = [] \<or> inUse (last ?rs)
          \<longrightarrow> length ?rs = RetryTriesLong p \<and> res = Some (couldNotBeDeleted name)
              \<and> evs = map (EvDeleteTable name) ?rs"
  proof
    assume a: "?rs = [] \<or> inUse (last ?rs)"
    have ns: "\<not> s"
    proof
      assume s
      with R rs have "?rs \<noteq> []" "last ?rs = None \<or> alreadyAbsent (last ?rs)" by simp_all
      with a show False using inUse_not_absent [of "last ?rs"] by (auto simp: inUse_None)
    qed
    have en: "e = None"
    proof (rule ccontr)
      assume "e \<noteq> None"
      with R rs have "?rs \<noteq> []" "last ?rs = e" "\<not> inUse e" by simp_all
      with a show False by simp
    qed
    from unfold assms(2) ns en have "res = Some (couldNotBeDeleted name)" "evs = evs1" by simp_all
    moreover from R ns en rs have "length ?rs = RetryTriesLong p" by simp
    ultimately show "length ?rs = RetryTriesLong p \<and> res = Some (couldNotBeDeleted name)
              \<and> evs = map (EvDeleteTable name) ?rs"
      using m rs by simp
  qed
  have c4: "\<forall>x. Some x \<in> set ?rs \<and> \<not> inUse (Some x) \<and> \<not> alreadyAbsent (Some x)
          \<longrightarrow> res = Some x \<and> evs \<noteq> [] \<and> last evs = EvDeleteTable name (Some x)"
  proof (intro allI impI)
    fix x assume a: "Some x \<in> set ?rs \<and> \<not> inUse (Some x) \<and> \<not> alreadyAbsent (Some x)"
    then have ne: "?rs \<noteq> []" by auto
    from set_butlast_last [OF ne, of "Some x"] a c2 have l: "last ?rs = Some x" by auto
    have ns: "\<not> s"
    proof
      assume s
      with R rs have "last ?rs = None \<or> alreadyAbsent (last ?rs)" by simp
      with l a show False by simp
    qed
    have "e \<noteq> None"
    proof
      assume "e = None"
      with R rs ns have "\<forall>r\<in>set ?rs. inUse r" by simp
      with a show False by blast
    qed
    with R rs have "last ?rs = e" by simp
    with l have e: "e = Some x" by simp
    with unfold assms(2) have fin: "res = Some x" "evs = evs1" by simp_all
    have lm: "last (map (EvDeleteTable name) ?rs) = EvDeleteTable name (Some x)"
      "map (EvDeleteTable name) ?rs \<noteq> []"
      using ne l by (simp_all add: last_map)
    have "evs1 \<noteq> []" using lm(2) m rs by simp
    moreover have "last evs1 = EvDeleteTable name (Some x)"
      using lm(1) m rs by simp
    ultimately show "res = Some x \<and> evs \<noteq> [] \<and> last evs = EvDeleteTable name (Some x)"
      using fin by simp
  qed
  have c5: "?rs \<noteq> [] \<and> (last ?rs = None \<or> alreadyAbsent (last ?rs))
          \<longrightarrow> (\<exists>w1 evs2. evs = map (EvDeleteTable name) ?rs @ evs2
                 \<and> waitForTableState p name False w1 = (res, evs2, w'))"
  proof
    assume a: "?rs \<noteq> [] \<and> (last ?rs = None \<or> alreadyAbsent (last ?rs))"
    then have notbusy: "\<not> inUse (last ?rs)"
      using inUse_not_absent [of "last ?rs"] by (auto simp: inUse_None)
    have en: "e = None"
    proof (rule ccontr)
      assume ne: "e \<noteq> None"
      with R rs have "last ?rs = e" "\<not> alreadyAbsent e" by simp_all
      with a ne show False by auto
    qed
    have s
    proof (rule ccontr)
      assume "\<not> s"
      with R rs en have "\<forall>r\<in>set ?rs. inUse r" by simp
      with a notbusy show False by simp
    qed
    with unfold assms(2) en have "res = res2" "evs = evs1 @ evs2" "w' = w2" by simp_all
    with wt m rs have "evs = map (EvDeleteTable name) ?rs @ evs2
                 \<and> waitForTableState p name False w1 = (res, evs2, w')"
      by simp
    then show "\<exists>w1 evs2. evs = map (EvDeleteTable name) ?rs @ evs2
                 \<and> waitForTableState p name False w1 = (res, evs2, w')"
      by blast
  qed
  from c1 c2 c3 c4 c5 c6 c7 c8 c9 show ?thesis by (intro conjI)
qed

lemmas delete_defs = Delete_def Delete_acceptor_def RetryUntilLong_def waitForTableState_def
  waitForTableState_acceptor_def callDeleteTable_def callDescribeTable_def scripted_def
  parseNonEmpty_def IsAWSError_def ErrCodeResourceNotFoundException_def
  ErrCodeResourceInUseException_def notFound_def resourceInUse_def eval_nat_numeral

text \<open>
  On a service where the table does not exist, the first \<open>DeleteTable\<close> call is answered
  "not found" and \<open>Delete\<close> goes on to the wait. On a service where the table is in use
  for ever, \<open>Delete\<close> returns "could not be deleted".
\<close>

theorem Delete_retries_and_reports_witness:
  "ParseResourceName gone ''orders'' = Inr ''orders''
   \<and> deleteResponses (fst (snd (Delete gone ''orders'' 0))) = [Some notFound]
   \<and> alreadyAbsent (Some notFound)
   \<and> (\<exists>w1 evs2. fst (snd (Delete gone ''orders'' 0))
                    = map (EvDeleteTable ''orders'') [Some notFound] @ evs2
         \<and> waitForTableState gone ''orders'' False w1
            = (fst (Delete gone ''orders'' 0), evs2, snd (snd (Delete gone ''orders'' 0))))
   \<and> ParseResourceName busyForEver ''orders'' = Inr ''orders''
   \<and> deleteResponses (fst (snd (Delete busyForEver ''orders'' 0)))
       = [Some resourceInUse, Some resourceInUse]
   \<and> inUse (Some resourceInUse)
   \<and> fst (Delete busyForEver ''orders'' 0) = Some (couldNotBeDeleted ''orders'')"
proof -
  let ?g = "Delete gone ''orders'' 0"
  let ?b = "Delete busyForEver ''orders'' 0"
  have pg: "ParseResourceName gone ''orders'' = Inr ''orders''"
    by (simp add: gone_def scripted_def parseNonEmpty_def)
  have pb: "ParseResourceName busyForEver ''orders'' = Inr ''orders''"
    by (simp add: busyForEver_def scripted_def parseNonEmpty_def)
  have rg: "?g = (fst ?g, fst (snd ?g), snd (snd ?g))" by simp
  have rb: "?b = (fst ?b, fst (snd ?b), snd (snd ?b))" by simp
  have dg: "deleteResponses (fst (snd ?g)) = [Some notFound]"
    by (simp add: delete_defs gone_def)
  have db: "deleteResponses (fst (snd ?b)) = [Some resourceInUse, Some resourceInUse]"
    by (simp add: delete_defs busyForEver_def)
  have ab: "alreadyAbsent (Some notFound)"
    by (simp add: alreadyAbsent_def notFound_def IsAWSError_def ErrCodeResourceNotFoundException_def)
  have iu: "inUse (Some resourceInUse)"
    by (simp add: inUse_def resourceInUse_def IsAWSError_def ErrCodeResourceInUseException_def)
  note G = Delete_retries_and_reports [OF pg rg, unfolded dg]
  note B = Delete_retries_and_reports [OF pb rb, unfolded db]
  from G ab have g5: "\<exists>w1 evs2. fst (snd ?g) = map (EvDeleteTable ''orders'') [Some notFound] @ evs2
         \<and> waitForTableState gone ''orders'' False w1 = (fst ?g, evs2, snd (snd ?g))"
    by simp
  from B iu have b3: "fst ?b = Some (couldNotBeDeleted ''orders'')" by simp
  from pg dg ab g5 pb db iu b3 show ?thesis by (intro conjI)
qed

text \<open>
  C5 as stated fails: the call is issued inside the long profile, not the short one. With
  one attempt in the short profile and two in the long one, a table that stays in use
  gets two \<open>DeleteTable\<close> calls.
\<close>

theorem Delete_retries_and_reports_counterexample:
  "RetryTries busyForEver = 1 \<and> RetryTriesLong busyForEver = 2
   \<and> deleteResponses (fst (snd (Delete busyForEver ''orders'' 0)))
       = [Some resourceInUse, Some resourceInUse]"
  by (simp add: delete_defs busyForEver_def)

subsection \<open>Create\<close>

text \<open>
  C6. \<open>Create\<close> issues the \<open>CreateTable\<close> call at most once, and exactly once whenever the
  description has a table name or a logical name to derive one from (otherwise the
  dereference of the nil name panics before any call). If that call returns an error,
  \<open>Create\<close> returns the empty identifier with that error, and the call is the only remote
  call made. \<open>Create\<close> issues no \<open>UpdateTable\<close> and no \<open>DeleteTable\<close> call.
\<close>

theorem Create_calls_once:
  assumes "Create p obj w = ((ident, err), evs, w')"
  shows "length (createRequests evs) \<le> 1
     \<and> (tab_TableName obj \<noteq> None \<or> tab_Name obj \<noteq> None
          \<longrightarrow> (\<exists>name. tableNameOf p obj = Some name
                 \<and> createRequests evs = [createTableInput obj name]))
     \<and> (\<forall>name e w1. tableNameOf p obj = Some name
            \<and> CreateTable p (createTableInput obj name) w = (Inl e, w1)
          \<longrightarrow> ident = [] \<and> err = Some e
              \<and> evs = [EvCreateTable (createTableInput obj name) (Inl e)] \<and> w' = w1)
     \<and> updateRequests evs = [] \<and> deleteResponses evs = []"
proof (cases "tableNameOf p obj")
  case None
  then have "evs = []" using assms by (simp add: Create_def)
  moreover from None have "tab_TableName obj = None \<and> tab_Name obj = None"
    by (auto simp: tableNameOf_def split: option.splits)
  ultimately show ?thesis using None by simp
next
  case (Some name)
  let ?create = "createTableInput obj name"
  obtain resp w1 where c: "CreateTable p ?create w = (resp, w1)" by (metis prod.exhaust)
  obtain res2 evs2 w2 where wt: "waitForTableState p name True w1 = (res2, evs2, w2)"
    by (metis prod.exhaust)
  from waitForTableState_events [OF wt, of False] describes_no_requests [of name evs2]
  have nou2: "updateRequests evs2 = []" "createRequests evs2 = []" "deleteResponses evs2 = []"
    by simp_all
  have shape: "evs = [EvCreateTable ?create resp] \<or> evs = [EvCreateTable ?create resp] @ evs2"
    using assms Some c wt
    by (auto simp: Create_def callCreateTable_def split: sum.splits option.splits)
  then have cr: "createRequests evs = [?create]" and ur: "updateRequests evs = []"
    and dr: "deleteResponses evs = []"
    using nou2 by (auto simp: createRequests_append)
  have fail: "ident = [] \<and> err = Some e \<and> evs = [EvCreateTable ?create (Inl e)] \<and> w' = w1'"
    if "CreateTable p ?create w = (Inl e, w1')" for e w1'
    using assms Some that by (simp add: Create_def callCreateTable_def)
  from cr ur dr fail Some show ?thesis by simp
qed

text \<open>
  On a service that refuses the creation, \<open>Create\<close> returns the empty identifier and the
  error after one \<open>CreateTable\<close> call.
\<close>

theorem Create_calls_once_witness:
  "tab_TableName ordersTable \<noteq> None
   \<and> tableNameOf busyForEver ordersTable = Some ''orders''
   \<and> CreateTable busyForEver (createTableInput ordersTable ''orders'') 0 = (Inl resourceInUse, 1)
   \<and> fst (Create busyForEver ordersTable 0) = ([], Some resourceInUse)
   \<and> createRequests (fst (snd (Create busyForEver ordersTable 0)))
       = [createTableInput ordersTable ''orders'']"
proof -
  let ?run = "Create busyForEver ordersTable 0"
  have run: "?run = ((fst (fst ?run), snd (fst ?run)), fst (snd ?run), snd (snd ?run))" by simp
  have n: "tab_TableName ordersTable \<noteq> None" by (simp add: ordersTable_def)
  have t: "tableNameOf busyForEver ordersTable = Some ''orders''"
    by (simp add: tableNameOf_def ordersTable_def)
  have c: "CreateTable busyForEver (createTableInput ordersTable ''orders'') 0 = (Inl resourceInUse, 1)"
    by (simp add: busyForEver_def scripted_def)
  note T = Create_calls_once [OF run]
  from T t c have "fst (fst ?run) = [] \<and> snd (fst ?run) = Some resourceInUse" by blast
  then have r: "fst ?run = ([], Some resourceInUse)" by (simp add: prod_eq_iff)
  from T n t have cr: "createRequests (fst (snd ?run)) = [createTableInput ordersTable ''orders'']"
    by auto
  from n t c r cr show ?thesis by (intro conjI)
qed

subsection \<open>Get\<close>

text \<open>
  What \<open>Get\<close> does with an error of the describe call, and with an error of the parser.
\<close>

lemma Get_describe_error:
  assumes "ParseResourceName p ident = Inr name" "DescribeTable p name w = (Inl err, w1)"
  shows "Get p ident w = ((None, Some err), [EvDescribeTable name (Inl err)], w1)"
  using assms by (simp add: Get_def callDescribeTable_def)

lemma Get_parse_error:
  assumes "ParseResourceName p ident = Inl err"
  shows "Get p ident w
     = ((None, if IsAWSError err [''ResourceNotFoundException''] then None else Some err), [], w)"
  using assms by (simp add: Get_def)

text \<open>
  C1. The code departs from the claim: \<open>Get\<close> returns every error of the describe call as
  an error, "not found" included, since it tests the error of the parser for "not found"
  and not the error of the describe call. On a service where the table does not exist,
  \<open>Get\<close> of an identifier that parses returns no state and the "not found" error, not the
  absent outcome.
\<close>

theorem Get_not_found_is_an_error:
  "ParseResourceName gone ''orders'' = Inr ''orders''
   \<and> DescribeTable gone ''orders'' 0 = (Inl notFound, 1)
   \<and> IsAWSError notFound [''ResourceNotFoundException'']
   \<and> Get gone ''orders'' 0
       = ((None, Some notFound), [EvDescribeTable ''orders'' (Inl notFound)], 1)"
  by (simp add: Get_def callDescribeTable_def gone_def scripted_def parseNonEmpty_def
      notFound_def IsAWSError_def)

end
